theory Spec2Isabelle
  imports Complex_Main "HOL-Library.Multiset" "HOL-Library.Sublist"
    "HOL-Library.Product_Lexorder" "HOL-Library.List_Lexorder" "HOL-Library.Word"
begin

section \<open>Data model\<close>

text \<open>
  The dashboard \<^verbatim>\<open>app.py\<close> is a script over one pandas DataFrame. A Python \<^verbatim>\<open>str\<close> is a
  sequence of Unicode code points, so a string is a list of code points here, compared
  lexicographically as Python does. \<open>py\<close> writes a literal.
\<close>

type_synonym str = "nat list"

definition py :: "string \<Rightarrow> str" where
  "py s = map of_char s"

text \<open>
  A calendar date is \<^verbatim>\<open>datetime.date(year, month, day)\<close>; Python compares dates
  lexicographically on (year, month, day), which is the order of the triple.
\<close>

type_synonym date = "int \<times> int \<times> int"

text \<open>
  One row of the CSV file, with the columns the script reads. Amounts are exact rationals
  (the rounding of float64 is not modelled). The units are whole numbers, which pandas
  reads into a column of 64-bit signed integers (dtype int64): a value is a 64-bit word,
  read with \<open>sint\<close>, and sums of the column wrap around.
\<close>

record row =
  Fecha :: date
  Region :: str
  Producto :: str
  Canal :: str
  Categoria :: str
  Laboratorio :: str
  Vendedor :: str
  Ventas :: rat
  Unidades :: "64 word"
  Inventario :: rat

type_synonym dataframe = "row list"

section \<open>Strings: \<^verbatim>\<open>str.title()\<close>, \<^verbatim>\<open>str.strip()\<close> and \<^verbatim>\<open>str.lower()\<close>\<close>

text \<open>
  The white space that \<^verbatim>\<open>str.strip()\<close> removes: the code points U+0009 to U+000D,
  U+001C to U+0020, U+0085, U+00A0, U+1680, U+2000 to U+200A, U+2028, U+2029, U+202F,
  U+205F and U+3000.
\<close>

definition is_space :: "nat \<Rightarrow> bool" where
  "is_space c \<longleftrightarrow> (9 \<le> c \<and> c \<le> 13) \<or> (28 \<le> c \<and> c \<le> 32) \<or> c = 133 \<or> c = 160
     \<or> c = 5760 \<or> (8192 \<le> c \<and> c \<le> 8202) \<or> c = 8232 \<or> c = 8233 \<or> c = 8239
     \<or> c = 8287 \<or> c = 12288"

text \<open>
  The case of a code point comes from the Unicode character database. Its entries for
  Basic Latin and the Latin-1 Supplement (0 to 255), and for the three code points that the
  case mappings of those lead to (U+0178, U+039C and U+03BC), are written out below. The
  rest of the database is a parameter of the model: for every other code point whether it
  is cased, and its full lower-case and title-case mappings, and for every code point
  whether it is case-ignorable (which only matters next to a capital sigma).
\<close>

record ucd =
  ucd_cased :: "nat \<Rightarrow> bool"
  ucd_case_ignorable :: "nat \<Rightarrow> bool"
  ucd_lower :: "nat \<Rightarrow> str"
  ucd_title :: "nat \<Rightarrow> str"

definition in_table :: "nat \<Rightarrow> bool" where
  "in_table c \<longleftrightarrow> c < 256 \<or> c = 376 \<or> c = 924 \<or> c = 956"

definition table_upper :: "nat \<Rightarrow> bool" where
  "table_upper c \<longleftrightarrow> (65 \<le> c \<and> c \<le> 90) \<or> (192 \<le> c \<and> c \<le> 222 \<and> c \<noteq> 215) \<or> c = 376 \<or> c = 924"

definition table_lower :: "nat \<Rightarrow> bool" where
  "table_lower c \<longleftrightarrow> (97 \<le> c \<and> c \<le> 122) \<or> c = 170 \<or> c = 181 \<or> c = 186
     \<or> (223 \<le> c \<and> c \<le> 255 \<and> c \<noteq> 247) \<or> c = 956"

definition table_cased :: "nat \<Rightarrow> bool" where
  "table_cased c \<longleftrightarrow> table_upper c \<or> table_lower c"

text \<open>The simple case mappings of the code points of the table.\<close>

definition table_lower_cp :: "nat \<Rightarrow> nat" where
  "table_lower_cp c =
     (if (65 \<le> c \<and> c \<le> 90) \<or> (192 \<le> c \<and> c \<le> 222 \<and> c \<noteq> 215) then c + 32
      else if c = 376 then 255
      else if c = 924 then 956
      else c)"

definition table_title_cp :: "nat \<Rightarrow> nat" where
  "table_title_cp c =
     (if (97 \<le> c \<and> c \<le> 122) \<or> (224 \<le> c \<and> c \<le> 254 \<and> c \<noteq> 247) then c - 32
      else if c = 181 then 924
      else if c = 255 then 376
      else if c = 956 then 924
      else c)"

text \<open>
  The full case mappings give a string: in the table the sharp s (223) has the title case
  "Ss", every other code point maps to one code point.
\<close>

definition table_to_lower :: "nat \<Rightarrow> str" where
  "table_to_lower c = [table_lower_cp c]"

definition table_to_title :: "nat \<Rightarrow> str" where
  "table_to_title c = (if c = 223 then [83, 115] else [table_title_cp c])"

text \<open>The database as a whole: the table where it is written out, the parameter elsewhere.\<close>

definition is_cased :: "ucd \<Rightarrow> nat \<Rightarrow> bool" where
  "is_cased U c = (if in_table c then table_cased c else ucd_cased U c)"

definition is_case_ignorable :: "ucd \<Rightarrow> nat \<Rightarrow> bool" where
  "is_case_ignorable U c = ucd_case_ignorable U c"

definition to_lower :: "ucd \<Rightarrow> nat \<Rightarrow> str" where
  "to_lower U c = (if in_table c then table_to_lower c else ucd_lower U c)"

definition to_title :: "ucd \<Rightarrow> nat \<Rightarrow> str" where
  "to_title U c = (if in_table c then table_to_title c else ucd_title U c)"

text \<open>
  Lower-casing one character of a string looks at its neighbours when the character is
  the capital sigma (931): it becomes the final sigma (962) when a cased character comes
  before it and none after it, case-ignorable characters skipped, and the small sigma
  (963) otherwise. \<open>before\<close> and \<open>after\<close> are the parts of the string on both sides.
\<close>

definition handle_capital_sigma :: "ucd \<Rightarrow> str \<Rightarrow> str \<Rightarrow> nat" where
  "handle_capital_sigma U before after =
     (let p = dropWhile (is_case_ignorable U) (rev before);
          q = dropWhile (is_case_ignorable U) after
      in if p \<noteq> [] \<and> is_cased U (hd p) \<and> (q = [] \<or> \<not> is_cased U (hd q)) then 962 else 963)"

definition lower_ucs4 :: "ucd \<Rightarrow> str \<Rightarrow> nat \<Rightarrow> str \<Rightarrow> str" where
  "lower_ucs4 U before c after =
     (if c = 931 then [handle_capital_sigma U before after] else to_lower U c)"

text \<open>
  \<^verbatim>\<open>str.title()\<close> walks the string once: a character that follows a cased character is
  lower-cased, any other character is title-cased.
\<close>

fun title_from :: "ucd \<Rightarrow> bool \<Rightarrow> str \<Rightarrow> str \<Rightarrow> str" where
  "title_from U previous_is_cased before [] = []"
| "title_from U previous_is_cased before (c # cs) =
     (if previous_is_cased then lower_ucs4 U before c cs else to_title U c)
       @ title_from U (is_cased U c) (before @ [c]) cs"

definition title :: "ucd \<Rightarrow> str \<Rightarrow> str" where
  "title U s = title_from U False [] s"

text \<open>\<^verbatim>\<open>str.lower()\<close>, used to say that two strings differ only in case.\<close>

fun lower_from :: "ucd \<Rightarrow> str \<Rightarrow> str \<Rightarrow> str" where
  "lower_from U before [] = []"
| "lower_from U before (c # cs) = lower_ucs4 U before c cs @ lower_from U (before @ [c]) cs"

definition lower :: "ucd \<Rightarrow> str \<Rightarrow> str" where
  "lower U s = lower_from U [] s"

text \<open>\<^verbatim>\<open>str.strip()\<close> removes the white space at both ends.\<close>

definition lstrip :: "str \<Rightarrow> str" where
  "lstrip s = dropWhile is_space s"

definition rstrip :: "str \<Rightarrow> str" where
  "rstrip s = rev (dropWhile is_space (rev s))"

definition strip :: "str \<Rightarrow> str" where
  "strip s = rstrip (lstrip s)"

text \<open>
  The same walks over the written-out table alone. On strings of code points of the
  table they are \<open>title\<close> and \<open>lower\<close>, whatever the rest of the database says.
\<close>

fun table_title_from :: "bool \<Rightarrow> str \<Rightarrow> str" where
  "table_title_from previous_is_cased [] = []"
| "table_title_from previous_is_cased (c # cs) =
     (if previous_is_cased then table_to_lower c else table_to_title c)
       @ table_title_from (table_cased c) cs"

definition table_title :: "str \<Rightarrow> str" where
  "table_title s = table_title_from False s"

definition table_lower_str :: "str \<Rightarrow> str" where
  "table_lower_str s = concat (map table_to_lower s)"

text \<open>
  A part of the database for examples: the capital I with dot above (304) is cased, has
  the title case 304 and the lower case "i" followed by the combining dot above (775),
  which is caseless and case-ignorable. No other code point outside the table occurs in
  the examples.
\<close>

definition unicode_sample :: ucd where
  "unicode_sample =
     \<lparr>ucd_cased = (\<lambda>c. c = 304),
      ucd_case_ignorable = (\<lambda>c. c = 775),
      ucd_lower = (\<lambda>c. if c = 304 then [105, 775] else [c]),
      ucd_title = (\<lambda>c. [c])\<rparr>"

section \<open>Loading the data\<close>

text \<open>
  What \<^verbatim>\<open>pd.read_csv\<close> does is the input of the model: it raises
  \<^verbatim>\<open>FileNotFoundError\<close>, raises another exception \<open>e\<close> (given by \<^verbatim>\<open>str(e)\<close>), or returns
  the parsed rows.
\<close>

datatype read_csv = FileNotFoundError | OtherException str | Parsed dataframe

definition empty_message :: str where
  "empty_message = py ''El archivo de datos est'' @ [225] @ py '' vac'' @ [237] @ py ''o.''"

definition not_found_message :: str where
  "not_found_message =
     py ''No se encontr'' @ [243] @ py '' el archivo de datos. Verifica la ruta: ''
       @ [39] @ py ''data/pharma_data_altibajos.csv'' @ [39]"

definition load_error_message :: "str \<Rightarrow> str" where
  "load_error_message e = py ''Error al cargar los datos: '' @ e"

definition normalize_region :: "ucd \<Rightarrow> row \<Rightarrow> row" where
  "normalize_region U r = r\<lparr>Region := strip (title U (Region r))\<rparr>"

text \<open>
  \<open>load_data\<close> returns the messages it shows with \<^verbatim>\<open>st.error\<close> and its return value,
  \<open>None\<close> for Python's \<^verbatim>\<open>None\<close>. A row always has the region column here (the
  script reads it without a test later on), so the test for the column is not modelled.
\<close>

definition load_data :: "ucd \<Rightarrow> read_csv \<Rightarrow> str list \<times> dataframe option" where
  "load_data U source =
     (case source of
        Parsed df \<Rightarrow>
          if df = [] then ([empty_message], None)
          else ([], Some (map (normalize_region U) df))
      | FileNotFoundError \<Rightarrow> ([not_found_message], None)
      | OtherException e \<Rightarrow> ([load_error_message e], None))"

text \<open>The script stops (\<^verbatim>\<open>st.stop()\<close>) when \<open>load_data\<close> returned \<^verbatim>\<open>None\<close>.\<close>

datatype 'a run = Stopped | Continues 'a

definition startup :: "ucd \<Rightarrow> read_csv \<Rightarrow> str list \<times> dataframe run" where
  "startup U source =
     (case load_data U source of
        (shown, None) \<Rightarrow> (shown, Stopped)
      | (shown, Some df) \<Rightarrow> (shown, Continues df))"

section \<open>The sidebar filters\<close>

text \<open>The six columns that get a multiselect widget, the keys of the dict \<^verbatim>\<open>filters\<close>.\<close>

datatype column = RegionC | ProductoC | CanalC | CategoriaC | LaboratorioC | VendedorC

fun column_of :: "column \<Rightarrow> row \<Rightarrow> str" where
  "column_of RegionC r = Region r"
| "column_of ProductoC r = Producto r"
| "column_of CanalC r = Canal r"
| "column_of CategoriaC r = Categoria r"
| "column_of LaboratorioC r = Laboratorio r"
| "column_of VendedorC r = Vendedor r"

definition filter_keys :: "column list" where
  "filter_keys = [RegionC, ProductoC, CanalC, CategoriaC, LaboratorioC, VendedorC]"

definition min_date :: "dataframe \<Rightarrow> date" where
  "min_date df = Min (set (map Fecha df))"

definition max_date :: "dataframe \<Rightarrow> date" where
  "max_date df = Max (set (map Fecha df))"

text \<open>The default value of the date widget: the whole span of the data.\<close>

definition default_date_range :: "dataframe \<Rightarrow> date list" where
  "default_date_range df = [min_date df, max_date df]"

definition date_range_warning :: str where
  "date_range_warning =
     py ''Por favor, selecciona un rango de fechas v'' @ [225] @ py ''lido.''"

text \<open>
  \<^verbatim>\<open>date_range\<close> is the tuple the date widget returns. The result is the warnings shown
  in the sidebar and the frame after the date filter.
\<close>

definition date_filter :: "dataframe \<Rightarrow> date list \<Rightarrow> str list \<times> dataframe" where
  "date_filter df date_range =
     (if length date_range = 2
      then (let start_date = date_range ! 0; end_date = date_range ! 1
            in ([], filter (\<lambda>r. Fecha r \<ge> start_date \<and> Fecha r \<le> end_date) df))
      else ([date_range_warning], df))"

text \<open>\<^verbatim>\<open>Series.unique()\<close> keeps the values in the order of their first appearance.\<close>

definition unique :: "'a list \<Rightarrow> 'a list" where
  "unique xs = rev (remdups (rev xs))"

definition options_of :: "column \<Rightarrow> dataframe \<Rightarrow> str list" where
  "options_of key frame = sort (unique (map (column_of key) frame))"

definition filters :: "dataframe \<Rightarrow> (column \<times> str list) list" where
  "filters frame = map (\<lambda>key. (key, options_of key frame)) filter_keys"

text \<open>
  A multiselect widget is given the column and its options (which are also its default)
  and returns what the user selected.
\<close>

type_synonym multiselect = "column \<Rightarrow> str list \<Rightarrow> str list"

definition default_multiselect :: multiselect where
  "default_multiselect key options = options"

definition selected_filters :: "multiselect \<Rightarrow> (column \<times> str list) list \<Rightarrow> (column \<times> str list) list" where
  "selected_filters multiselect fs = map (\<lambda>(key, options). (key, multiselect key options)) fs"

text \<open>The loop that applies the selections; an empty selection is skipped.\<close>

fun apply_selected :: "(column \<times> str list) list \<Rightarrow> dataframe \<Rightarrow> dataframe" where
  "apply_selected [] frame = frame"
| "apply_selected ((key, vals) # rest) frame =
     apply_selected rest
       (if vals \<noteq> [] then filter (\<lambda>r. column_of key r \<in> set vals) frame
        else frame)"

definition df_filtered :: "dataframe \<Rightarrow> date list \<Rightarrow> multiselect \<Rightarrow> dataframe" where
  "df_filtered df date_range multiselect =
     (let by_date = snd (date_filter df date_range)
      in apply_selected (selected_filters multiselect (filters by_date)) by_date)"

text \<open>The same loop with one column left out of the dict, for comparison.\<close>

definition df_filtered_without :: "column \<Rightarrow> dataframe \<Rightarrow> date list \<Rightarrow> multiselect \<Rightarrow> dataframe" where
  "df_filtered_without key df date_range multiselect =
     (let by_date = snd (date_filter df date_range)
      in apply_selected
           (selected_filters multiselect (filter (\<lambda>(k, options). k \<noteq> key) (filters by_date)))
           by_date)"

text \<open>The warning starts with the warning sign U+26A0 U+FE0F.\<close>

definition no_data_warning :: str where
  "no_data_warning =
     [9888, 65039]
       @ py '' No hay datos disponibles para los filtros seleccionados. Ajusta tus selecciones.''"

text \<open>The filter stage of the script: it stops when no row is left.\<close>

definition filter_stage :: "dataframe \<Rightarrow> date list \<Rightarrow> multiselect \<Rightarrow> str list \<times> dataframe run" where
  "filter_stage df date_range multiselect =
     (let view = df_filtered df date_range multiselect;
          shown = fst (date_filter df date_range)
      in if view = [] then (shown @ [no_data_warning], Stopped) else (shown, Continues view))"

section \<open>Key indicators\<close>

datatype py_error = ZeroDivisionError

definition truediv :: "rat \<Rightarrow> rat \<Rightarrow> py_error + rat" where
  "truediv a b = (if b = 0 then Inl ZeroDivisionError else Inr (a / b))"

definition ventas_totales :: "dataframe \<Rightarrow> rat" where
  "ventas_totales view = sum_list (map Ventas view)"

text \<open>The sum of an int64 column is an int64: it wraps around.\<close>

definition unidades_totales :: "dataframe \<Rightarrow> 64 word" where
  "unidades_totales view = sum_list (map Unidades view)"

text \<open>The sum of the units as an integer, without the wrap, for comparison.\<close>

definition unidades_exactas :: "dataframe \<Rightarrow> int" where
  "unidades_exactas view = sum_list (map (\<lambda>r. sint (Unidades r)) view)"

definition precio_unitario :: "dataframe \<Rightarrow> py_error + rat" where
  "precio_unitario view =
     (if sint (unidades_totales view) > 0
      then truediv (ventas_totales view) (of_int (sint (unidades_totales view)))
      else Inr 0)"

section \<open>Grouped sums and rankings\<close>

text \<open>
  \<^verbatim>\<open>groupby(key, as_index=False)[col].sum()\<close>: one entry for each value of the key
  column, the keys in ascending order (pandas sorts the group keys), with the sum of the
  column over the rows of the group.
\<close>

definition groupby_sum :: "(row \<Rightarrow> str) \<Rightarrow> (row \<Rightarrow> rat) \<Rightarrow> dataframe \<Rightarrow> (str \<times> rat) list" where
  "groupby_sum key col view =
     map (\<lambda>k. (k, sum_list (map col (filter (\<lambda>r. key r = k) view))))
       (sort (unique (map key view)))"

text \<open>
  \<^verbatim>\<open>nlargest(n, "Ventas")\<close>, with its default \<^verbatim>\<open>keep="first"\<close>: the first \<open>n\<close> entries in
  descending order of the sum, entries with equal sums in their original order. The
  script calls it with \<open>n = 10\<close>.
\<close>

definition nlargest :: "nat \<Rightarrow> (str \<times> rat) list \<Rightarrow> (str \<times> rat) list" where
  "nlargest n grouped = take n (sort_key (\<lambda>(k, v). - v) grouped)"

definition top_productos :: "dataframe \<Rightarrow> (str \<times> rat) list" where
  "top_productos view = nlargest 10 (groupby_sum Producto Ventas view)"

definition top_vendedores :: "dataframe \<Rightarrow> (str \<times> rat) list" where
  "top_vendedores view = nlargest 10 (groupby_sum Vendedor Ventas view)"

section \<open>The calendar\<close>

text \<open>
  The proleptic Gregorian calendar as Python's \<^verbatim>\<open>datetime\<close> module computes it: the
  ordinal of a date counts the days from 0001-01-01, which has ordinal 1 and is a Monday;
  \<open>weekday\<close> is 0 on a Monday and 6 on a Sunday.
\<close>

definition is_leap :: "int \<Rightarrow> bool" where
  "is_leap year \<longleftrightarrow> year mod 4 = 0 \<and> (year mod 100 \<noteq> 0 \<or> year mod 400 = 0)"

definition days_in_month :: "int \<Rightarrow> int \<Rightarrow> int" where
  "days_in_month year month =
     (if month = 2 then (if is_leap year then 29 else 28)
      else if month = 4 \<or> month = 6 \<or> month = 9 \<or> month = 11 then 30
      else 31)"

definition days_before_year :: "int \<Rightarrow> int" where
  "days_before_year year =
     (let y = year - 1 in y * 365 + y div 4 - y div 100 + y div 400)"

definition DAYS_BEFORE_MONTH :: "int list" where
  "DAYS_BEFORE_MONTH = [-1, 0, 31, 59, 90, 120, 151, 181, 212, 243, 273, 304, 334]"

definition days_before_month :: "int \<Rightarrow> int \<Rightarrow> int" where
  "days_before_month year month =
     DAYS_BEFORE_MONTH ! nat month + (if month > 2 \<and> is_leap year then 1 else 0)"

fun toordinal :: "date \<Rightarrow> int" where
  "toordinal (year, month, day) = days_before_year year + days_before_month year month + day"

definition weekday :: "date \<Rightarrow> int" where
  "weekday d = (toordinal d + 6) mod 7"

fun valid_date :: "date \<Rightarrow> bool" where
  "valid_date (year, month, day) \<longleftrightarrow>
     1 \<le> month \<and> month \<le> 12 \<and> 1 \<le> day \<and> day \<le> days_in_month year month"

text \<open>The Monday on or before a date, and the Monday on or after it, as ordinals.\<close>

definition week_start :: "date \<Rightarrow> int" where
  "week_start d = toordinal d - weekday d"

definition week_end :: "date \<Rightarrow> int" where
  "week_end d = toordinal d + (7 - weekday d) mod 7"

section \<open>Trends\<close>

datatype periodo = Diario | Semanal | Mensual | Trimestral | Anual

text \<open>
  The resample codes \<^verbatim>\<open>"D"\<close>, \<^verbatim>\<open>"W-MON"\<close>, \<^verbatim>\<open>"M"\<close>, \<^verbatim>\<open>"Q"\<close> and \<^verbatim>\<open>"Y"\<close>; the last
  three are the pandas aliases for month end, quarter end and year end.
\<close>

datatype freq = Code_D | Code_W_MON | Code_M | Code_Q | Code_Y

fun period_code :: "periodo \<Rightarrow> freq" where
  "period_code Diario = Code_D"
| "period_code Semanal = Code_W_MON"
| "period_code Mensual = Code_M"
| "period_code Trimestral = Code_Q"
| "period_code Anual = Code_Y"

text \<open>
  \<^verbatim>\<open>resample\<close> cuts the time axis into consecutive bins and labels each bin with a
  date. Here a bin is identified by its number, consecutive bins having consecutive
  numbers:
  \<^item> \<^verbatim>\<open>"D"\<close>: one bin a day, numbered by the ordinal of the day;
  \<^item> \<^verbatim>\<open>"W-MON"\<close>: weekly bins anchored on Monday, closed and labelled on the right: bin
    \<open>k\<close> is the seven days that end on the Monday with ordinal \<open>7 * k + 1\<close>;
  \<^item> \<^verbatim>\<open>"M"\<close>: calendar months (labelled with their last day), numbered
    \<open>12 * year + month - 1\<close>;
  \<^item> \<^verbatim>\<open>"Q"\<close>: calendar quarters ending in March, June, September and December,
    numbered \<open>4 * year + (month - 1) div 3\<close>;
  \<^item> \<^verbatim>\<open>"Y"\<close>: calendar years.
\<close>

fun bin_of :: "freq \<Rightarrow> date \<Rightarrow> int" where
  "bin_of Code_D d = toordinal d"
| "bin_of Code_W_MON d = (toordinal d + 5) div 7"
| "bin_of Code_M (year, month, day) = 12 * year + (month - 1)"
| "bin_of Code_Q (year, month, day) = 4 * year + (month - 1) div 3"
| "bin_of Code_Y (year, month, day) = year"

text \<open>
  The calendar periods in words: two dates are in the same period when they are the same
  day, when the first Monday on or after them is the same, or when they have the same
  year and month, the same year and quarter, the same year.
\<close>

fun same_period :: "freq \<Rightarrow> date \<Rightarrow> date \<Rightarrow> bool" where
  "same_period Code_D a b \<longleftrightarrow> a = b"
| "same_period Code_W_MON a b \<longleftrightarrow> week_end a = week_end b"
| "same_period Code_M (y1, m1, d1) (y2, m2, d2) \<longleftrightarrow> y1 = y2 \<and> m1 = m2"
| "same_period Code_Q (y1, m1, d1) (y2, m2, d2) \<longleftrightarrow> y1 = y2 \<and> (m1 - 1) div 3 = (m2 - 1) div 3"
| "same_period Code_Y (y1, m1, d1) (y2, m2, d2) \<longleftrightarrow> y1 = y2"

text \<open>
  \<^verbatim>\<open>resample(code)\<close> on a frame indexed by \<^verbatim>\<open>Fecha\<close>: every bin from the one of the
  earliest date to the one of the latest date, each with the rows that fall into it.
\<close>

definition resample :: "freq \<Rightarrow> dataframe \<Rightarrow> (int \<times> dataframe) list" where
  "resample code view =
     (if view = [] then []
      else map (\<lambda>k. (k, filter (\<lambda>r. bin_of code (Fecha r) = k) view))
             [bin_of code (min_date view) .. bin_of code (max_date view)])"

text \<open>\<^verbatim>\<open>mean\<close> of no values is NaN, here \<open>None\<close>; \<^verbatim>\<open>sum\<close> of no values is 0.\<close>

definition mean :: "rat list \<Rightarrow> rat option" where
  "mean xs = (if xs = [] then None else Some (sum_list xs / of_nat (length xs)))"

record trend_row =
  trend_Fecha :: int
  trend_Ventas :: rat
  trend_Inventario :: "rat option"
  trend_Unidades :: "64 word"

fun agg :: "int \<times> dataframe \<Rightarrow> trend_row" where
  "agg (k, rows) =
     \<lparr>trend_Fecha = k,
      trend_Ventas = sum_list (map Ventas rows),
      trend_Inventario = mean (map Inventario rows),
      trend_Unidades = sum_list (map Unidades rows)\<rparr>"

definition df_trend :: "periodo \<Rightarrow> dataframe \<Rightarrow> trend_row list" where
  "df_trend periodo view = map agg (resample (period_code periodo) view)"

section \<open>A small data set\<close>

text \<open>
  Three records dated 2024-01-01, 02 and 03, regions "lima", "Lima " and "LIMA",
  sales 100, 200 and 300, units 10, 20 and 0.
\<close>

definition record_of :: "date \<Rightarrow> str \<Rightarrow> rat \<Rightarrow> 64 word \<Rightarrow> row" where
  "record_of d region sales units =
     \<lparr>Fecha = d, Region = region, Producto = py ''Aspirina'', Canal = py ''Farmacia'',
      Categoria = py ''Analgesico'', Laboratorio = py ''Lab'', Vendedor = py ''Ana'',
      Ventas = sales, Unidades = units, Inventario = 50\<rparr>"

definition raw_records :: dataframe where
  "raw_records =
     [record_of (2024, 1, 1) (py ''lima'') 100 10,
      record_of (2024, 1, 2) (py ''Lima '') 200 20,
      record_of (2024, 1, 3) (py ''LIMA'') 300 0]"

text \<open>The same records as \<open>load_data\<close> returns them.\<close>

definition loaded_records :: dataframe where
  "loaded_records =
     [record_of (2024, 1, 1) (py ''Lima'') 100 10,
      record_of (2024, 1, 2) (py ''Lima'') 200 20,
      record_of (2024, 1, 3) (py ''Lima'') 300 0]"

text \<open>
  Two records for the region Izmir, once written with the capital I with dot above (304)
  and once in lower case, "i" followed by the combining dot above (775).
\<close>

definition izmir_records :: dataframe where
  "izmir_records =
     [record_of (2024, 1, 1) [304, 122, 109, 105, 114] 100 10,
      record_of (2024, 1, 2) [105, 775, 122, 109, 105, 114] 200 20]"

text \<open>A user who deselects every region and leaves the other widgets alone.\<close>

definition no_region :: multiselect where
  "no_region key options = (if key = RegionC then [] else options)"

text \<open>Grouped sums with ties.\<close>

definition tied_sums :: "(str \<times> rat) list" where
  "tied_sums = [(py ''A'', 5), (py ''B'', 7), (py ''C'', 5), (py ''D'', 7)]"

text \<open>Two sales in the week from Monday 2024-01-01 to Sunday 2024-01-07.\<close>

definition same_week_records :: dataframe where
  "same_week_records =
     [record_of (2024, 1, 1) (py ''Lima'') 100 10,
      record_of (2024, 1, 7) (py ''Lima'') 200 20]"

text \<open>Two sales with a day without sales between them.\<close>

definition gap_records :: dataframe where
  "gap_records =
     [record_of (2024, 1, 1) (py ''Lima'') 100 10,
      record_of (2024, 1, 3) (py ''Lima'') 300 0]"

text \<open>Two sales whose units add up to \<open>2 ^ 63\<close>, one more than an int64 holds.\<close>

definition overflow_records :: dataframe where
  "overflow_records =
     [record_of (2024, 1, 1) (py ''Lima'') 1 9223372036854775807,
      record_of (2024, 1, 2) (py ''Lima'') 1 1]"

section \<open>Properties\<close>

subsection \<open>Unit price\<close>

lemma sint_unidades_totales:
  assumes "- (2 ^ 63) \<le> unidades_exactas view" "unidades_exactas view < 2 ^ 63"
  shows "sint (unidades_totales view) = unidades_exactas view"
proof -
  have "unidades_totales view = word_of_int (unidades_exactas view)"
    by (simp add: unidades_totales_def unidades_exactas_def comp_def flip: sum_list_of_int)
  then have "sint (unidades_totales view) = signed_take_bit 63 (unidades_exactas view)"
    by (simp add: sint_sbintrunc')
  with assms show ?thesis
    by (simp add: signed_take_bit_int_eq_self)
qed

text \<open>
  The units 9223372036854775807 and 1 add up to \<open>2 ^ 63\<close>, a positive number, but the
  int64 sum wraps to a negative one, the guard fails and the unit price is 0, not the
  total sales divided by the total units.
\<close>

theorem unit_price_overflow_counterexample:
  "0 < unidades_exactas overflow_records
   \<and> precio_unitario overflow_records = Inr 0
   \<and> ventas_totales overflow_records / of_int (unidades_exactas overflow_records) \<noteq> 0"
  by code_simp

text \<open>
  Claim C3, as the script has it. For every non-empty filtered view the unit price is
  decided by the total units as pandas computes them, the wrapping 64-bit sum of the
  column: when that total is 0 the unit price is 0 and no division error is raised,
  whatever the total sales are; when it is positive the unit price is the total sales
  divided by it. Whenever the sum of the units fits into 64 bits it is that total, and
  then sum 0 gives 0 and a positive sum gives total sales divided by total units.
\<close>

theorem precio_unitario_guarded:
  assumes "view \<noteq> []"
  shows "(sint (unidades_totales view) = 0 \<longrightarrow> precio_unitario view = Inr 0)
    \<and> (sint (unidades_totales view) > 0 \<longrightarrow>
         precio_unitario view
           = Inr (ventas_totales view / of_int (sint (unidades_totales view))))
    \<and> (- (2 ^ 63) \<le> unidades_exactas view \<and> unidades_exactas view < 2 ^ 63 \<longrightarrow>
         sint (unidades_totales view) = unidades_exactas view
         \<and> (unidades_exactas view = 0 \<longrightarrow> precio_unitario view = Inr 0)
         \<and> (unidades_exactas view > 0 \<longrightarrow>
              precio_unitario view
                = Inr (ventas_totales view / of_int (unidades_exactas view))))"
proof -
  have guard: "(sint (unidades_totales view) = 0 \<longrightarrow> precio_unitario view = Inr 0)
    \<and> (sint (unidades_totales view) > 0 \<longrightarrow>
         precio_unitario view
           = Inr (ventas_totales view / of_int (sint (unidades_totales view))))"
    by (simp add: precio_unitario_def truediv_def del: of_int_sint)
  show ?thesis
  proof (cases "- (2 ^ 63) \<le> unidades_exactas view \<and> unidades_exactas view < 2 ^ 63")
    case True
    then have "sint (unidades_totales view) = unidades_exactas view"
      by (intro sint_unidades_totales) simp_all
    with guard True show ?thesis by metis
  next
    case False
    with guard show ?thesis by blast
  qed
qed

theorem precio_unitario_guarded_witness:
  "[record_of (2024, 1, 3) (py ''Lima'') 300 0] \<noteq> []
   \<and> sint (unidades_totales [record_of (2024, 1, 3) (py ''Lima'') 300 0]) = 0
   \<and> precio_unitario [record_of (2024, 1, 3) (py ''Lima'') 300 0] = Inr 0
   \<and> unidades_exactas (take 2 raw_records) = 30
   \<and> sint (unidades_totales (take 2 raw_records)) = 30
   \<and> precio_unitario (take 2 raw_records) = Inr 10"
proof -
  have u0: "sint (unidades_totales [record_of (2024, 1, 3) (py ''Lima'') 300 0]) = 0"
    by code_simp
  have e2: "unidades_exactas (take 2 raw_records) = 30"
    by code_simp
  have v2: "ventas_totales (take 2 raw_records) = 300"
    by code_simp
  have ne: "take 2 raw_records \<noteq> []"
    by (simp add: raw_records_def)
  from precio_unitario_guarded [of "[record_of (2024, 1, 3) (py ''Lima'') 300 0]"] u0
  have p0: "precio_unitario [record_of (2024, 1, 3) (py ''Lima'') 300 0] = Inr 0"
    by blast
  from precio_unitario_guarded [OF ne] e2 v2
  have p2: "sint (unidades_totales (take 2 raw_records)) = 30
      \<and> precio_unitario (take 2 raw_records) = Inr 10"
    by simp
  from u0 e2 p0 p2 show ?thesis by simp
qed

subsection \<open>The filter engine\<close>

text \<open>The loop over the selections is one filter: a row stays when it passes every
  selection that is not empty.\<close>

lemma apply_selected_filter:
  "apply_selected fs df =
     filter (\<lambda>r. \<forall>(key, vals) \<in> set fs. vals \<noteq> [] \<longrightarrow> column_of key r \<in> set vals) df"
  by (induction fs arbitrary: df) (auto intro: filter_cong)

lemma set_unique [simp]: "set (unique xs) = set xs"
  by (simp add: unique_def)

lemma distinct_unique [simp]: "distinct (unique xs)"
  by (simp add: unique_def)

lemma set_options_of: "set (options_of key df) = column_of key ` set df"
  by (simp add: options_of_def)

lemma set_filter_keys: "set filter_keys = UNIV"
proof -
  have "key \<in> set filter_keys" for key
    by (cases key) (simp_all add: filter_keys_def)
  then show ?thesis by blast
qed

lemma selected_filters_set:
  "set (selected_filters multiselect (filters df))
     = (\<lambda>key. (key, multiselect key (options_of key df))) ` UNIV"
  by (simp add: selected_filters_def filters_def comp_def set_filter_keys)

lemma date_filter_two:
  "date_filter df [start_date, end_date]
     = ([], filter (\<lambda>r. start_date \<le> Fecha r \<and> Fecha r \<le> end_date) df)"
  by (simp add: date_filter_def)

lemma date_filter_default: "date_filter df (default_date_range df) = ([], df)"
proof -
  have "min_date df \<le> Fecha r \<and> Fecha r \<le> max_date df" if "r \<in> set df" for r
    using that by (simp add: min_date_def max_date_def)
  then show ?thesis
    by (simp add: default_date_range_def date_filter_two)
qed

text \<open>
  Claim C1 (soundness). For every data set, every date interval and every selection in
  the six widgets, a row of the filtered view is a row of the data set, its date lies
  between the two ends of the interval, and for each of the six columns whose selection
  is not empty its value is one of the selected ones.
\<close>

theorem filter_soundness:
  assumes "r \<in> set (df_filtered df [start_date, end_date] multiselect)"
  shows "r \<in> set df \<and> start_date \<le> Fecha r \<and> Fecha r \<le> end_date
    \<and> (\<forall>key. multiselect key (options_of key (snd (date_filter df [start_date, end_date]))) \<noteq> []
          \<longrightarrow> column_of key r
                \<in> set (multiselect key (options_of key (snd (date_filter df [start_date, end_date])))))"
  using assms
  by (auto simp: df_filtered_def Let_def apply_selected_filter selected_filters_set date_filter_two)

theorem filter_soundness_witness:
  "record_of (2024, 1, 2) (py ''Lima'') 200 20
     \<in> set (df_filtered loaded_records [(2024, 1, 1), (2024, 1, 2)] default_multiselect)
   \<and> record_of (2024, 1, 2) (py ''Lima'') 200 20 \<in> set loaded_records
   \<and> (2024, 1, 1) \<le> Fecha (record_of (2024, 1, 2) (py ''Lima'') 200 20)
   \<and> Fecha (record_of (2024, 1, 2) (py ''Lima'') 200 20) \<le> (2024, 1, 2)
   \<and> default_multiselect RegionC
        (options_of RegionC (snd (date_filter loaded_records [(2024, 1, 1), (2024, 1, 2)]))) \<noteq> []
   \<and> column_of RegionC (record_of (2024, 1, 2) (py ''Lima'') 200 20)
       \<in> set (default_multiselect RegionC
            (options_of RegionC (snd (date_filter loaded_records [(2024, 1, 1), (2024, 1, 2)]))))"
proof -
  have mem: "record_of (2024, 1, 2) (py ''Lima'') 200 20
     \<in> set (df_filtered loaded_records [(2024, 1, 1), (2024, 1, 2)] default_multiselect)"
    by code_simp
  have sel: "default_multiselect RegionC
        (options_of RegionC (snd (date_filter loaded_records [(2024, 1, 1), (2024, 1, 2)]))) \<noteq> []"
    by code_simp
  from filter_soundness [OF mem] mem sel show ?thesis
    by blast
qed

text \<open>
  Claim C2 (identity). With the default state of the widgets (the interval from the
  smallest to the largest date of the data, and every option of every column selected)
  the filtered view is the data set itself, same rows in the same order.
\<close>

theorem default_filter_identity:
  "df_filtered df (default_date_range df) default_multiselect = df"
  by (simp add: df_filtered_def date_filter_default apply_selected_filter
      selected_filters_set default_multiselect_def set_options_of)

theorem default_filter_identity_witness:
  "default_date_range loaded_records = [(2024, 1, 1), (2024, 1, 3)]
   \<and> df_filtered loaded_records [(2024, 1, 1), (2024, 1, 3)] default_multiselect = loaded_records"
proof -
  have span: "default_date_range loaded_records = [(2024, 1, 1), (2024, 1, 3)]"
    by code_simp
  from default_filter_identity [of loaded_records] span show ?thesis
    by simp
qed

text \<open>
  Claim C4. When the selection of a column is empty, no membership test is made for that
  column: the view is the one that the loop produces with that column left out, so
  deselecting everything in one widget never by itself removes all rows.
\<close>

theorem empty_selection_no_restriction:
  assumes "multiselect key (options_of key (snd (date_filter df date_range))) = []"
  shows "df_filtered df date_range multiselect = df_filtered_without key df date_range multiselect
    \<and> (df_filtered_without key df date_range multiselect \<noteq> []
         \<longrightarrow> df_filtered df date_range multiselect \<noteq> [])"
proof -
  define by_date where "by_date = snd (date_filter df date_range)"
  have without: "set (selected_filters multiselect (filter (\<lambda>(k, options). k \<noteq> key) (filters by_date)))
      = (\<lambda>k. (k, multiselect k (options_of k by_date))) ` (UNIV - {key})"
    by (force simp: selected_filters_def filters_def filter_map comp_def set_filter_keys)
  have "df_filtered df date_range multiselect = df_filtered_without key df date_range multiselect"
    unfolding df_filtered_def df_filtered_without_def Let_def by_date_def [symmetric]
      apply_selected_filter selected_filters_set without
    using assms by (intro filter_cong) (auto simp: by_date_def)
  then show ?thesis by simp
qed

theorem empty_selection_no_restriction_witness:
  "no_region RegionC
     (options_of RegionC (snd (date_filter loaded_records [(2024, 1, 1), (2024, 1, 3)]))) = []
   \<and> df_filtered loaded_records [(2024, 1, 1), (2024, 1, 3)] no_region
       = df_filtered_without RegionC loaded_records [(2024, 1, 1), (2024, 1, 3)] no_region
   \<and> df_filtered_without RegionC loaded_records [(2024, 1, 1), (2024, 1, 3)] no_region \<noteq> []
   \<and> df_filtered loaded_records [(2024, 1, 1), (2024, 1, 3)] no_region \<noteq> []"
proof -
  have none: "no_region RegionC
     (options_of RegionC (snd (date_filter loaded_records [(2024, 1, 1), (2024, 1, 3)]))) = []"
    by (simp add: no_region_def)
  have rest: "df_filtered_without RegionC loaded_records [(2024, 1, 1), (2024, 1, 3)] no_region \<noteq> []"
    by code_simp
  from empty_selection_no_restriction [of no_region RegionC loaded_records "[(2024, 1, 1), (2024, 1, 3)]"] none rest
  show ?thesis
    by blast
qed

text \<open>
  An interval whose end lies before its start has two endpoints, so the date filter is
  applied: no row passes and no warning about the date range is shown. The view is not
  the full data set.
\<close>

theorem reversed_date_range_counterexample:
  "(2024, 1, 1) < ((2024, 1, 3) :: date)
   \<and> snd (date_filter loaded_records [(2024, 1, 3), (2024, 1, 1)]) \<noteq> loaded_records
   \<and> fst (date_filter loaded_records [(2024, 1, 3), (2024, 1, 1)]) = []"
  by code_simp

text \<open>
  Claim C5, as the script has it. When the date widget returns anything but two dates (a
  single endpoint, for instance) the script does not fail: it shows a warning and goes on
  with the full data set. An interval with two endpoints and its end before its start is
  not taken as invalid: the date filter keeps no row and shows no warning, and the filter
  stage stops the script with the message that no data is available.
\<close>

theorem date_range_fallback:
  "(length date_range \<noteq> 2 \<longrightarrow>
        date_filter df date_range = ([date_range_warning], df)
        \<and> (df \<noteq> [] \<longrightarrow>
             filter_stage df date_range default_multiselect
               = ([date_range_warning], Continues df)))
   \<and> (end_date < start_date \<longrightarrow>
        date_filter df [start_date, end_date] = ([], [])
        \<and> filter_stage df [start_date, end_date] multiselect = ([no_data_warning], Stopped))"
proof -
  have empty: "filter (\<lambda>r. start_date \<le> Fecha r \<and> Fecha r \<le> end_date) df = []"
    if "end_date < start_date"
    using that by (auto simp: filter_empty_conv)
  have fallback: "date_filter df date_range = ([date_range_warning], df)"
    if "length date_range \<noteq> 2"
    using that by (simp add: date_filter_def)
  have whole: "df_filtered df date_range default_multiselect = df"
    if "length date_range \<noteq> 2"
    by (simp add: df_filtered_def fallback [OF that] apply_selected_filter
        selected_filters_set default_multiselect_def set_options_of)
  have reversed: "date_filter df [start_date, end_date] = ([], [])
      \<and> filter_stage df [start_date, end_date] multiselect = ([no_data_warning], Stopped)"
    if "end_date < start_date"
    by (simp add: date_filter_two filter_stage_def df_filtered_def apply_selected_filter
        empty [OF that])
  have stage: "filter_stage df date_range default_multiselect
      = ([date_range_warning], Continues df)"
    if "length date_range \<noteq> 2" "df \<noteq> []"
    using that by (simp add: filter_stage_def whole fallback)
  from fallback stage reversed show ?thesis
    by blast
qed

theorem date_range_fallback_witness:
  "length [(2024, 1, 2) :: date] \<noteq> 2
   \<and> date_filter loaded_records [(2024, 1, 2)] = ([date_range_warning], loaded_records)
   \<and> loaded_records \<noteq> []
   \<and> filter_stage loaded_records [(2024, 1, 2)] default_multiselect
       = ([date_range_warning], Continues loaded_records)
   \<and> (2024, 1, 1) < ((2024, 1, 3) :: date)
   \<and> date_filter loaded_records [(2024, 1, 3), (2024, 1, 1)] = ([], [])
   \<and> filter_stage loaded_records [(2024, 1, 3), (2024, 1, 1)] default_multiselect
       = ([no_data_warning], Stopped)"
proof -
  have one: "length [(2024, 1, 2) :: date] \<noteq> 2"
    by simp
  have reversed: "(2024, 1, 1) < ((2024, 1, 3) :: date)"
    by simp
  have nonempty: "loaded_records \<noteq> []"
    by (simp add: loaded_records_def raw_records_def)
  from date_range_fallback [of "[(2024, 1, 2)]" loaded_records "(2024, 1, 1)" "(2024, 1, 3)"
      default_multiselect] one reversed nonempty
  show ?thesis by blast
qed

subsection \<open>The loader\<close>

text \<open>
  A missing file, a file without records and any other failure all give the caller the
  same return value.
\<close>

theorem load_failures_same_return_counterexample:
  "snd (load_data unicode_sample FileNotFoundError) = snd (load_data unicode_sample (Parsed []))
   \<and> snd (load_data unicode_sample (Parsed []))
       = snd (load_data unicode_sample (OtherException (py ''No columns to parse from file'')))"
  by (simp add: load_data_def)

text \<open>
  Claim C6, as the script has it. A missing file, a file without records and any other
  failure each show a message of their own (the last one ends with the message of the
  underlying exception), all three return \<open>None\<close>, after which the script stops; and
  whenever a data set is returned it is the whole parsed file, normalized.
\<close>

theorem load_data_failures:
  "load_data U FileNotFoundError = ([not_found_message], None)
   \<and> load_data U (Parsed []) = ([empty_message], None)
   \<and> load_data U (OtherException e) = ([load_error_message e], None)
   \<and> suffix e (load_error_message e)
   \<and> not_found_message \<noteq> empty_message
   \<and> load_error_message e \<noteq> not_found_message
   \<and> load_error_message e \<noteq> empty_message
   \<and> snd (startup U FileNotFoundError) = Stopped
   \<and> snd (startup U (Parsed [])) = Stopped
   \<and> snd (startup U (OtherException e)) = Stopped
   \<and> (snd (load_data U source) = Some loaded \<longrightarrow>
        (\<exists>df. source = Parsed df \<and> df \<noteq> [] \<and> loaded = map (normalize_region U) df))"
proof -
  have "load_error_message e \<noteq> not_found_message" "load_error_message e \<noteq> empty_message"
    "not_found_message \<noteq> empty_message"
    by (simp_all add: load_error_message_def not_found_message_def empty_message_def py_def)
  moreover have "suffix e (load_error_message e)"
    by (simp add: load_error_message_def suffix_def)
  moreover have "snd (load_data U source) = Some loaded \<longrightarrow>
        (\<exists>df. source = Parsed df \<and> df \<noteq> [] \<and> loaded = map (normalize_region U) df)"
    by (auto simp: load_data_def split: read_csv.splits if_splits)
  ultimately show ?thesis
    by (simp add: load_data_def startup_def)
qed

theorem load_data_failures_witness:
  "snd (load_data unicode_sample (Parsed raw_records)) = Some loaded_records
   \<and> raw_records \<noteq> [] \<and> loaded_records = map (normalize_region unicode_sample) raw_records
   \<and> load_data unicode_sample (OtherException (py ''No columns to parse from file''))
       = ([py ''Error al cargar los datos: No columns to parse from file''], None)"
proof -
  have ok: "snd (load_data unicode_sample (Parsed raw_records)) = Some loaded_records"
    by code_simp
  from load_data_failures [of unicode_sample "py ''No columns to parse from file''"
      "Parsed raw_records" loaded_records] ok
  show ?thesis
    by (auto simp: load_error_message_def py_def)
qed

subsection \<open>Region names\<close>

text \<open>
  Facts about single code points are proved interval by interval; the two intervals of
  lower-case letters are written as an upper-case letter plus 32.
\<close>

lemmas char_defs = is_space_def table_upper_def table_lower_def table_cased_def table_lower_cp_def table_title_cp_def

lemma cp_cases:
  fixes c :: nat
  obtains "c < 65" | "65 \<le> c" "c \<le> 90" | "90 < c" "c < 97"
    | d where "c = d + 32" "65 \<le> d" "d \<le> 90"
    | "122 < c" "c < 192" | "192 \<le> c" "c \<le> 222" | "c = 223"
    | d where "c = d + 32" "192 \<le> d" "d \<le> 222"
    | "c = 255" | "255 < c"
proof -
  consider "c < 65" | "65 \<le> c \<and> c \<le> 90" | "90 < c \<and> c < 97" | "97 \<le> c \<and> c \<le> 122"
    | "122 < c \<and> c < 192" | "192 \<le> c \<and> c \<le> 222" | "c = 223" | "224 \<le> c \<and> c \<le> 254"
    | "c = 255" | "255 < c"
    by linarith
  then show thesis
  proof cases
    case 4
    then have "c = (c - 32) + 32" "65 \<le> c - 32" "c - 32 \<le> 90" by linarith+
    then show ?thesis using that(4) by blast
  next
    case 8
    then have "c = (c - 32) + 32" "192 \<le> c - 32" "c - 32 \<le> 222" by linarith+
    then show ?thesis using that(8) by blast
  qed (use that in blast)+
qed

lemma lower_cp_idem: "table_lower_cp (table_lower_cp c) = table_lower_cp c"
  by (cases c rule: cp_cases) (auto simp: char_defs)

lemma title_cp_lower_cp: "c \<noteq> 223 \<Longrightarrow> table_title_cp (table_lower_cp c) = table_title_cp c"
  by (cases c rule: cp_cases) (auto simp: char_defs)

lemma lower_cp_223: "table_lower_cp c = 223 \<longleftrightarrow> c = 223"
  by (cases c rule: cp_cases) (auto simp: char_defs)

lemma is_cased_lower_cp: "table_cased (table_lower_cp c) = table_cased c"
  by (cases c rule: cp_cases) (auto simp: char_defs)

lemma title_cp_idem: "table_title_cp (table_title_cp c) = table_title_cp c"
  by (cases c rule: cp_cases) (auto simp: char_defs)

lemma title_cp_223: "table_title_cp c = 223 \<longleftrightarrow> c = 223"
  by (cases c rule: cp_cases) (auto simp: char_defs)

lemma is_cased_title_cp: "table_cased (table_title_cp c) = table_cased c"
  by (cases c rule: cp_cases) (auto simp: char_defs)

lemma is_space_title_cp: "is_space (table_title_cp c) = is_space c"
  by (cases c rule: cp_cases) (auto simp: char_defs)

lemma is_space_lower_cp: "is_space (table_lower_cp c) = is_space c"
  by (cases c rule: cp_cases) (auto simp: char_defs)

lemma space_fixed: "is_space c \<Longrightarrow> \<not> table_cased c \<and> table_title_cp c = c \<and> table_lower_cp c = c \<and> c \<noteq> 223"
  by (cases c rule: cp_cases) (auto simp: char_defs)

lemma not_space_Ss: "\<not> is_space 83" "\<not> is_space 115"
  by (simp_all add: is_space_def)

lemma title_from_spaces:
  "\<forall>c \<in> set ws. is_space c \<Longrightarrow>
     table_title_from p (ws @ s) = ws @ table_title_from (if ws = [] then p else False) s"
proof (induction ws arbitrary: p)
  case Nil
  then show ?case by simp
next
  case (Cons c ws)
  then have c: "is_space c" and ws: "\<forall>c \<in> set ws. is_space c" by simp_all
  from Cons.IH [OF ws, of False] c show ?case
    by (simp add: table_to_lower_def table_to_title_def space_fixed)
qed

lemma title_from_only_spaces: "\<forall>c \<in> set ws. is_space c \<Longrightarrow> table_title_from p ws = ws"
  using title_from_spaces [of ws p "[]"] by simp

lemma title_from_append_spaces:
  "\<forall>c \<in> set ws. is_space c \<Longrightarrow> table_title_from p (s @ ws) = table_title_from p s @ ws"
  by (induction s arbitrary: p) (simp_all add: title_from_only_spaces)

lemma title_from_hd:
  assumes "s \<noteq> []" "\<not> is_space (hd s)"
  shows "table_title_from p s \<noteq> [] \<and> \<not> is_space (hd (table_title_from p s))"
proof -
  from assms obtain c cs where s: "s = c # cs" and c: "\<not> is_space c"
    by (cases s) auto
  have "hd (table_title_from p s) = hd (if p then table_to_lower c else table_to_title c)"
    "table_title_from p s \<noteq> []"
    by (simp_all add: s table_to_lower_def table_to_title_def)
  with c show ?thesis
    by (simp add: table_to_lower_def table_to_title_def is_space_lower_cp is_space_title_cp not_space_Ss)
qed

lemma title_from_last:
  "s \<noteq> [] \<Longrightarrow> \<not> is_space (last s) \<Longrightarrow>
     table_title_from p s \<noteq> [] \<and> \<not> is_space (last (table_title_from p s))"
proof (induction s arbitrary: p)
  case Nil
  then show ?case by simp
next
  case (Cons c s)
  show ?case
  proof (cases "s = []")
    case True
    with Cons.prems have "\<not> is_space c" by simp
    with True show ?thesis
      by (simp add: table_to_lower_def table_to_title_def is_space_lower_cp is_space_title_cp not_space_Ss)
  next
    case False
    with Cons.prems have "\<not> is_space (last s)" by simp
    from Cons.IH [OF False this, of "table_cased c"] show ?thesis by simp
  qed
qed

lemma dropWhile_id: "xs = [] \<or> \<not> P (hd xs) \<Longrightarrow> dropWhile P xs = xs"
  by (cases xs) auto

lemma dropWhile_append_all: "\<forall>x \<in> set xs. P x \<Longrightarrow> dropWhile P (xs @ ys) = dropWhile P ys"
  by (induction xs) auto

lemma dropWhile_title:
  "dropWhile is_space (table_title_from False s) = table_title_from False (dropWhile is_space s)"
proof -
  define ws where "ws = takeWhile is_space s"
  define t where "t = dropWhile is_space s"
  have spaces: "\<forall>c \<in> set ws. is_space c"
    by (auto simp: ws_def dest: set_takeWhileD)
  have t: "t = [] \<or> \<not> is_space (hd t)"
    unfolding t_def using hd_dropWhile [of is_space s] by blast
  have "s = ws @ t"
    by (simp add: ws_def t_def)
  then have "table_title_from False s = ws @ table_title_from False t"
    using title_from_spaces [OF spaces, of False t] by simp
  then have "dropWhile is_space (table_title_from False s) = dropWhile is_space (table_title_from False t)"
    using spaces by (simp only: dropWhile_append_all)
  also have "\<dots> = table_title_from False t"
  proof (cases "t = []")
    case True
    then show ?thesis by simp
  next
    case False
    with t have "\<not> is_space (hd t)" by blast
    from title_from_hd [OF False this] show ?thesis
      by (intro dropWhile_id) blast
  qed
  finally show ?thesis by (simp only: t_def)
qed

lemma rstrip_Nil: "rstrip [] = []"
  by (simp add: rstrip_def)

lemma rstrip_id: "s = [] \<or> \<not> is_space (last s) \<Longrightarrow> rstrip s = s"
proof -
  assume "s = [] \<or> \<not> is_space (last s)"
  then have "rev s = [] \<or> \<not> is_space (hd (rev s))"
    by (auto simp: hd_rev)
  then have "dropWhile is_space (rev s) = rev s"
    by (rule dropWhile_id)
  then show ?thesis by (simp add: rstrip_def)
qed

lemma rstrip_append_spaces:
  assumes "\<forall>c \<in> set ws. is_space c"
  shows "rstrip (s @ ws) = rstrip s"
proof -
  from assms have "\<forall>c \<in> set (rev ws). is_space c" by simp
  then have "dropWhile is_space (rev ws @ rev s) = dropWhile is_space (rev s)"
    by (rule dropWhile_append_all)
  then show ?thesis by (simp add: rstrip_def)
qed

lemma rstrip_decompose: "s = rstrip s @ rev (takeWhile is_space (rev s))"
  unfolding rstrip_def by (metis rev_append rev_rev_ident takeWhile_dropWhile_id)

lemma rstrip_last: "rstrip s \<noteq> [] \<Longrightarrow> \<not> is_space (last (rstrip s))"
  unfolding rstrip_def by (metis hd_dropWhile last_rev rev_is_Nil_conv)

lemma rstrip_hd: "rstrip s \<noteq> [] \<Longrightarrow> hd (rstrip s) = hd s"
  using rstrip_decompose [of s] by (metis hd_append2)

lemma rstrip_title: "rstrip (table_title_from p s) = table_title_from p (rstrip s)"
proof -
  define ws where "ws = rev (takeWhile is_space (rev s))"
  define t where "t = rstrip s"
  have spaces: "\<forall>c \<in> set ws. is_space c"
    by (auto simp: ws_def dest: set_takeWhileD)
  have "s = t @ ws"
    unfolding t_def ws_def by (rule rstrip_decompose)
  then have "table_title_from p s = table_title_from p t @ ws"
    using title_from_append_spaces [OF spaces, of p t] by simp
  then have "rstrip (table_title_from p s) = rstrip (table_title_from p t)"
    using spaces by (simp only: rstrip_append_spaces)
  also have "\<dots> = table_title_from p t"
  proof (cases "t = []")
    case True
    then show ?thesis by (simp add: rstrip_Nil)
  next
    case False
    then have "\<not> is_space (last t)"
      unfolding t_def by (rule rstrip_last)
    from title_from_last [OF False this] show ?thesis
      by (intro rstrip_id) blast
  qed
  finally show ?thesis by (simp only: t_def)
qed

lemma strip_rstrip: "strip s = rstrip (dropWhile is_space s)"
  by (simp add: strip_def lstrip_def)

lemma strip_title: "strip (table_title s) = table_title (strip s)"
  by (simp only: strip_rstrip table_title_def dropWhile_title rstrip_title)

lemma strip_strip: "strip (strip s) = strip s"
proof -
  define t where "t = dropWhile is_space s"
  have t: "t = [] \<or> \<not> is_space (hd t)"
    unfolding t_def using hd_dropWhile [of is_space s] by blast
  have "rstrip t = [] \<or> \<not> is_space (hd (rstrip t))"
  proof (cases "rstrip t = []")
    case True
    then show ?thesis by simp
  next
    case False
    then have "t \<noteq> []" using rstrip_Nil by auto
    with t False show ?thesis by (simp add: rstrip_hd)
  qed
  then have "dropWhile is_space (rstrip t) = rstrip t"
    by (rule dropWhile_id)
  moreover have "rstrip (rstrip t) = rstrip t"
    using rstrip_last [of t] by (intro rstrip_id) blast
  ultimately show ?thesis
    by (simp only: strip_rstrip t_def [symmetric])
qed

lemma title_from_image:
  "table_title_from p ((if p then table_to_lower c else table_to_title c) @ t)
     = (if p then table_to_lower c else table_to_title c) @ table_title_from (table_cased c) t"
proof (cases "c = 223")
  case True
  then show ?thesis
    by (simp add: table_to_lower_def table_to_title_def char_defs)
next
  case False
  then show ?thesis
    by (simp add: table_to_lower_def table_to_title_def lower_cp_idem title_cp_idem is_cased_lower_cp
        is_cased_title_cp title_cp_223)
qed

lemma title_from_idem: "table_title_from p (table_title_from p s) = table_title_from p s"
proof (induction s arbitrary: p)
  case Nil
  then show ?case by simp
next
  case (Cons c s)
  have "table_title_from p (table_title_from p (c # s))
      = table_title_from p ((if p then table_to_lower c else table_to_title c) @ table_title_from (table_cased c) s)"
    by simp
  also have "\<dots> = (if p then table_to_lower c else table_to_title c)
      @ table_title_from (table_cased c) (table_title_from (table_cased c) s)"
    by (rule title_from_image)
  finally show ?case by (simp add: Cons.IH)
qed

lemma title_from_lower: "table_title_from p (table_lower_str s) = table_title_from p s"
proof (induction s arbitrary: p)
  case Nil
  then show ?case by (simp add: table_lower_str_def)
next
  case (Cons c s)
  have "table_lower_str (c # s) = table_lower_cp c # table_lower_str s"
    by (simp add: table_lower_str_def table_to_lower_def)
  moreover have "table_to_lower (table_lower_cp c) = table_to_lower c" "table_to_title (table_lower_cp c) = table_to_title c"
    by (simp_all add: table_to_lower_def table_to_title_def lower_cp_idem title_cp_lower_cp lower_cp_223)
  ultimately show ?case
    using Cons.IH by (simp add: is_cased_lower_cp)
qed

lemma normalize_idem: "strip (table_title (strip (table_title s))) = strip (table_title s)"
proof -
  have "table_title (strip (table_title s)) = strip (table_title (table_title s))"
    by (rule strip_title [symmetric])
  also have "table_title (table_title s) = table_title s"
    by (simp add: table_title_def title_from_idem)
  finally show ?thesis by (simp add: strip_strip)
qed

lemma normalize_by_lower: "strip (table_title s) = table_title (table_lower_str (strip s))"
proof -
  have "table_title (strip s) = table_title (table_lower_str (strip s))"
    by (simp add: table_title_def title_from_lower)
  then show ?thesis by (simp add: strip_title)
qed

lemma normalized_equal:
  assumes "a = strip (table_title x)" "b = strip (table_title y)" "table_lower_str (strip a) = table_lower_str (strip b)"
  shows "a = b"
proof -
  have "a = strip (table_title a)" "b = strip (table_title b)"
    using assms(1,2) by (simp_all add: normalize_idem)
  then have "a = table_title (table_lower_str (strip a))" "b = table_title (table_lower_str (strip b))"
    by (simp_all add: normalize_by_lower [symmetric])
  with assms(3) show ?thesis by simp
qed

text \<open>Strings of code points of the table stay in the table, and the database parameter
  plays no part in their case.\<close>

lemma in_table_lower_cp: "in_table c \<Longrightarrow> in_table (table_lower_cp c)"
  by (cases c rule: cp_cases) (auto simp: in_table_def table_lower_cp_def)

lemma in_table_title_cp: "in_table c \<Longrightarrow> in_table (table_title_cp c)"
  by (cases c rule: cp_cases) (auto simp: in_table_def table_title_cp_def)

lemma in_table_images:
  assumes "in_table c"
  shows "\<forall>d \<in> set (table_to_lower c). in_table d" "\<forall>d \<in> set (table_to_title c). in_table d"
  using assms in_table_lower_cp [of c] in_table_title_cp [of c]
  by (auto simp: table_to_lower_def table_to_title_def in_table_def)

lemma not_sigma: "in_table c \<Longrightarrow> c \<noteq> 931"
  by (auto simp: in_table_def)

lemma title_from_table:
  "\<forall>c \<in> set s. in_table c \<Longrightarrow> title_from U p before s = table_title_from p s"
  by (induction s arbitrary: p before)
    (simp_all add: lower_ucs4_def to_lower_def to_title_def is_cased_def not_sigma)

lemma title_table: "\<forall>c \<in> set s. in_table c \<Longrightarrow> title U s = table_title s"
  by (simp add: title_def table_title_def title_from_table)

lemma lower_from_table:
  "\<forall>c \<in> set s. in_table c \<Longrightarrow> lower_from U before s = table_lower_str s"
  by (induction s arbitrary: before)
    (simp_all add: lower_ucs4_def to_lower_def table_lower_str_def not_sigma)

lemma lower_table: "\<forall>c \<in> set s. in_table c \<Longrightarrow> lower U s = table_lower_str s"
  by (simp add: lower_def lower_from_table)

lemma table_title_from_in_table:
  "\<forall>c \<in> set s. in_table c \<Longrightarrow> \<forall>c \<in> set (table_title_from p s). in_table c"
proof (induction s arbitrary: p)
  case Nil
  then show ?case by simp
next
  case (Cons c s)
  then have "in_table c" and rest: "\<forall>c \<in> set s. in_table c" by simp_all
  from in_table_images [OF \<open>in_table c\<close>] Cons.IH [OF rest] show ?case
    by auto
qed

lemma strip_in_table: "\<forall>c \<in> set s. in_table c \<Longrightarrow> \<forall>c \<in> set (strip s). in_table c"
  by (auto simp: strip_def lstrip_def rstrip_def dest!: set_dropWhileD)

lemma normalized_value:
  assumes "\<forall>c \<in> set x. in_table c"
  shows "strip (title U x) = strip (table_title x)"
    and "\<forall>c \<in> set (strip (title U x)). in_table c"
    and "strip (strip (title U x)) = strip (title U x)"
    and "title U (strip (title U x)) = strip (title U x)"
proof -
  show eq: "strip (title U x) = strip (table_title x)"
    by (simp add: title_table [OF assms])
  have "\<forall>c \<in> set (table_title x). in_table c"
    unfolding table_title_def using assms by (rule table_title_from_in_table)
  then have tab: "\<forall>c \<in> set (strip (table_title x)). in_table c"
    by (rule strip_in_table)
  with eq show "\<forall>c \<in> set (strip (title U x)). in_table c"
    by simp
  show "strip (strip (title U x)) = strip (title U x)"
    by (rule strip_strip)
  have "table_title (strip (table_title x)) = strip (table_title (table_title x))"
    by (rule strip_title [symmetric])
  also have "table_title (table_title x) = table_title x"
    by (simp add: table_title_def title_from_idem)
  finally have "table_title (strip (table_title x)) = strip (table_title x)" .
  with title_table [OF tab, of U] eq
  show "title U (strip (title U x)) = strip (title U x)"
    by simp
qed

text \<open>
  A data set with the region Izmir, written with the capital I with dot above, and the
  same word in lower case, as \<^verbatim>\<open>str.lower()\<close> gives it. After loading, the two regions
  are two different options of the widget that differ only in case.
\<close>

theorem dotted_capital_i_counterexample:
  "map Region izmir_records
     = [[304, 122, 109, 105, 114], lower unicode_sample [304, 122, 109, 105, 114]]
   \<and> options_of RegionC
        (snd (date_filter (map (normalize_region unicode_sample) izmir_records)
           [(2024, 1, 1), (2024, 1, 2)]))
       = [[73, 775, 90, 109, 105, 114], [304, 122, 109, 105, 114]]
   \<and> lower unicode_sample (strip [73, 775, 90, 109, 105, 114])
       = lower unicode_sample (strip [304, 122, 109, 105, 114])
   \<and> [73, 775, 90, 109, 105, 114] \<noteq> [304, 122, 109, 105, (114::nat)]"
  by code_simp

text \<open>
  Claim C8, for region names written in Basic Latin and Latin-1 (which covers Spanish).
  After loading, every such region value is trimmed and in title case (it is left
  unchanged by \<open>strip\<close> and by \<open>title\<close>), so the options of the region widget are
  distinct and no two of them differ only in case or in surrounding white space; "lima",
  "Lima " and "LIMA" all become "Lima". This holds whatever the Unicode database says
  about the code points outside the table.
\<close>

theorem region_options_canonical:
  assumes "df = map (normalize_region U) raw"
    and "\<forall>r \<in> set raw. \<forall>c \<in> set (Region r). in_table c"
  shows "(\<forall>r \<in> set df. strip (Region r) = Region r \<and> title U (Region r) = Region r)
    \<and> distinct (options_of RegionC (snd (date_filter df date_range)))
    \<and> (\<forall>a b. a \<in> set (options_of RegionC (snd (date_filter df date_range)))
          \<and> b \<in> set (options_of RegionC (snd (date_filter df date_range)))
          \<and> lower U (strip a) = lower U (strip b) \<longrightarrow> a = b)
    \<and> strip (title U (py ''lima'')) = py ''Lima''
    \<and> strip (title U (py ''Lima '')) = py ''Lima''
    \<and> strip (title U (py ''LIMA'')) = py ''Lima''"
proof -
  have loaded: "\<exists>x. (\<forall>c \<in> set x. in_table c) \<and> Region r = strip (title U x)"
    if "r \<in> set df" for r
  proof -
    from that assms(1) obtain x where x: "x \<in> set raw" "r = normalize_region U x"
      by auto
    from x(1) assms(2) have "\<forall>c \<in> set (Region x). in_table c"
      by simp
    moreover from x(2) have "Region r = strip (title U (Region x))"
      by (simp add: normalize_region_def)
    ultimately show ?thesis
      by blast
  qed
  have canonical: "\<forall>r \<in> set df. strip (Region r) = Region r \<and> title U (Region r) = Region r"
    using loaded normalized_value(3,4) by metis
  have sub: "set (snd (date_filter df date_range)) \<subseteq> set df"
    by (auto simp: date_filter_def Let_def)
  have option: "\<exists>x. (\<forall>c \<in> set x. in_table c) \<and> a = strip (title U x)"
    if "a \<in> set (options_of RegionC (snd (date_filter df date_range)))" for a
  proof -
    from that sub obtain r where "r \<in> set df" "a = Region r"
      by (auto simp: set_options_of)
    with loaded show ?thesis by metis
  qed
  have "a = b" if "a \<in> set (options_of RegionC (snd (date_filter df date_range)))"
    "b \<in> set (options_of RegionC (snd (date_filter df date_range)))"
    "lower U (strip a) = lower U (strip b)" for a b
  proof -
    from option [OF that(1)] obtain x where x: "\<forall>c \<in> set x. in_table c" "a = strip (title U x)"
      by blast
    from option [OF that(2)] obtain y where y: "\<forall>c \<in> set y. in_table c" "b = strip (title U y)"
      by blast
    have a: "a = strip (table_title x)" "\<forall>c \<in> set a. in_table c"
      using normalized_value(1,2) [OF x(1), of U] x(2) by simp_all
    have b: "b = strip (table_title y)" "\<forall>c \<in> set b. in_table c"
      using normalized_value(1,2) [OF y(1), of U] y(2) by simp_all
    from a(2) have "\<forall>c \<in> set (strip a). in_table c" by (rule strip_in_table)
    then have la: "lower U (strip a) = table_lower_str (strip a)" by (rule lower_table)
    from b(2) have "\<forall>c \<in> set (strip b). in_table c" by (rule strip_in_table)
    then have lb: "lower U (strip b) = table_lower_str (strip b)" by (rule lower_table)
    from that(3) la lb have "table_lower_str (strip a) = table_lower_str (strip b)" by simp
    with a(1) b(1) show ?thesis by (rule normalized_equal)
  qed
  moreover have "distinct (options_of RegionC (snd (date_filter df date_range)))"
    by (simp add: options_of_def)
  moreover have "strip (title U (py ''lima'')) = py ''Lima''"
    "strip (title U (py ''Lima '')) = py ''Lima''"
    "strip (title U (py ''LIMA'')) = py ''Lima''"
  proof -
    have tab: "\<forall>c \<in> set (py ''lima''). in_table c" "\<forall>c \<in> set (py ''Lima ''). in_table c"
      "\<forall>c \<in> set (py ''LIMA''). in_table c"
      by (simp_all add: py_def in_table_def)
    have "strip (table_title (py ''lima'')) = py ''Lima''"
      "strip (table_title (py ''Lima '')) = py ''Lima''"
      "strip (table_title (py ''LIMA'')) = py ''Lima''"
      by code_simp+
    with tab show "strip (title U (py ''lima'')) = py ''Lima''"
      "strip (title U (py ''Lima '')) = py ''Lima''"
      "strip (title U (py ''LIMA'')) = py ''Lima''"
      by (simp_all add: title_table)
  qed
  ultimately show ?thesis using canonical by blast
qed

theorem region_options_canonical_witness:
  "loaded_records = map (normalize_region unicode_sample) raw_records
   \<and> list_all (\<lambda>r. list_all in_table (Region r)) raw_records
   \<and> map Region raw_records = [py ''lima'', py ''Lima '', py ''LIMA'']
   \<and> map Region loaded_records = [py ''Lima'', py ''Lima'', py ''Lima'']
   \<and> options_of RegionC (snd (date_filter loaded_records [(2024, 1, 1), (2024, 1, 3)]))
       = [py ''Lima'']
   \<and> lower unicode_sample (strip (py ''Lima'')) = lower unicode_sample (strip (py ''Lima''))"
proof -
  have raw: "map Region raw_records = [py ''lima'', py ''Lima '', py ''LIMA'']"
    by (simp add: raw_records_def record_of_def)
  have tab: "list_all (\<lambda>r. list_all in_table (Region r)) raw_records"
    by code_simp
  then have tab': "\<forall>r \<in> set raw_records. \<forall>c \<in> set (Region r). in_table c"
    by (simp add: list_all_iff)
  from region_options_canonical [OF refl tab', of unicode_sample "[]"]
  have normal: "strip (title unicode_sample (py ''lima'')) = py ''Lima''"
    "strip (title unicode_sample (py ''Lima '')) = py ''Lima''"
    "strip (title unicode_sample (py ''LIMA'')) = py ''Lima''"
    by blast+
  have loaded: "loaded_records = map (normalize_region unicode_sample) raw_records"
    by (simp add: loaded_records_def raw_records_def record_of_def normalize_region_def normal)
  have regions: "map Region loaded_records = [py ''Lima'', py ''Lima'', py ''Lima'']"
    by (simp add: loaded_records_def record_of_def)
  have options: "options_of RegionC (snd (date_filter loaded_records [(2024, 1, 1), (2024, 1, 3)]))
       = [py ''Lima'']"
    by code_simp
  from loaded tab raw regions options show ?thesis by simp
qed

subsection \<open>Top ten\<close>

lemma groupby_sum_keys:
  "distinct (map fst (groupby_sum key col view))"
  "length (groupby_sum key col view) = card (key ` set view)"
proof -
  show "distinct (map fst (groupby_sum key col view))"
    by (simp add: groupby_sum_def comp_def)
  have "card (set (unique (map key view))) = length (unique (map key view))"
    by (rule distinct_card) (rule distinct_unique)
  then show "length (groupby_sum key col view) = card (key ` set view)"
    by (simp add: groupby_sum_def)
qed

lemma nlargest_descending: "sorted_wrt (\<lambda>a b. snd a \<ge> snd b) (nlargest n grouped)"
proof -
  have "sorted (map (\<lambda>(k, v). - v) (sort_key (\<lambda>(k, v). - v) grouped))"
    by (rule sorted_sort_key)
  then have "sorted_wrt (\<lambda>a b. snd a \<ge> snd b) (sort_key (\<lambda>(k, v). - v) grouped)"
    by (simp add: sorted_map case_prod_unfold)
  then show ?thesis
    unfolding nlargest_def by (rule sorted_wrt_take)
qed

lemma nlargest_sub_multiset: "mset (nlargest n grouped) \<subseteq># mset grouped"
proof -
  let ?s = "sort_key (\<lambda>(k, v). - v) grouped"
  have "mset ?s = mset (take n ?s) + mset (drop n ?s)"
    by (simp flip: mset_append)
  then have "mset (take n ?s) \<subseteq># mset ?s"
    by simp
  then show ?thesis by (simp add: nlargest_def)
qed

lemma nlargest_ties:
  "prefix (filter (\<lambda>e. snd e = v) (nlargest n grouped)) (filter (\<lambda>e. snd e = v) grouped)"
proof -
  let ?f = "\<lambda>(k, v). - v :: rat"
  have same: "(\<lambda>e :: str \<times> rat. snd e = v) = (\<lambda>e. ?f e = - v)"
    by (auto simp: fun_eq_iff)
  have "prefix (take n (sort_key ?f grouped)) (sort_key ?f grouped)"
    by (rule take_is_prefix)
  then have "prefix (filter (\<lambda>e. ?f e = - v) (take n (sort_key ?f grouped)))
      (filter (\<lambda>e. ?f e = - v) (sort_key ?f grouped))"
    by (rule filter_mono_prefix)
  then show ?thesis
    unfolding nlargest_def same by (simp only: sort_key_stable)
qed

text \<open>
  Claim C7. For every list of grouped sums and every \<open>n\<close>, \<open>nlargest\<close> returns
  \<open>min n (number of entries)\<close> entries, in descending order of the sum, that form a
  sub-multiset of the entries given; entries with the same sum come in the order they
  had in the input, the earlier ones first. The grouped sums have one entry for each
  distinct key, so the length is \<open>min n (number of distinct keys)\<close>.
\<close>

theorem nlargest_shape:
  "length (nlargest n grouped) = min n (length grouped)
   \<and> sorted_wrt (\<lambda>a b. snd a \<ge> snd b) (nlargest n grouped)
   \<and> mset (nlargest n grouped) \<subseteq># mset grouped
   \<and> (\<forall>v. prefix (filter (\<lambda>e. snd e = v) (nlargest n grouped))
              (filter (\<lambda>e. snd e = v) grouped))
   \<and> distinct (map fst (groupby_sum key col view))
   \<and> length (groupby_sum key col view) = card (key ` set view)
   \<and> length (nlargest n (groupby_sum key col view)) = min n (card (key ` set view))"
proof -
  have "length (nlargest n xs) = min n (length xs)" for xs
    by (simp add: nlargest_def)
  then show ?thesis
    by (simp add: nlargest_descending nlargest_sub_multiset nlargest_ties groupby_sum_keys)
qed

theorem nlargest_shape_witness:
  "nlargest 3 tied_sums = [(py ''B'', 7), (py ''D'', 7), (py ''A'', 5)]
   \<and> length (nlargest 3 tied_sums) = min 3 (length tied_sums)
   \<and> filter (\<lambda>e. snd e = 5) (nlargest 3 tied_sums) = [(py ''A'', 5)]
   \<and> filter (\<lambda>e. snd e = 5) tied_sums = [(py ''A'', 5), (py ''C'', 5)]
   \<and> groupby_sum Region Ventas loaded_records = [(py ''Lima'', 600)]
   \<and> top_productos loaded_records = [(py ''Aspirina'', 600)]
   \<and> length (nlargest 10 (groupby_sum Producto Ventas loaded_records)) = 1"
proof -
  have top: "nlargest 3 tied_sums = [(py ''B'', 7), (py ''D'', 7), (py ''A'', 5)]"
    by code_simp
  have ties: "filter (\<lambda>e. snd e = 5) tied_sums = [(py ''A'', 5), (py ''C'', 5)]"
    by code_simp
  have sums: "groupby_sum Region Ventas loaded_records = [(py ''Lima'', 600)]"
    "top_productos loaded_records = [(py ''Aspirina'', 600)]"
    by code_simp+
  have products: "card (Producto ` set loaded_records) = 1"
    by code_simp
  from nlargest_shape [of 3 tied_sums Producto Ventas loaded_records]
    nlargest_shape [of 10 "[]" Producto Ventas loaded_records] top ties sums products
  show ?thesis by (simp add: tied_sums_def)
qed

subsection \<open>The calendar\<close>

text \<open>The ordinal of a date grows with the date, for well-formed dates.\<close>

lemma div_step:
  fixes y n :: int
  assumes "0 < n"
  shows "y div n = (y - 1) div n + (if y mod n = 0 then 1 else 0)"
proof -
  define q where "q = (y - 1) div n"
  define r where "r = (y - 1) mod n"
  have "y - 1 = q * n + r"
    by (simp add: q_def r_def)
  then have y: "y = (r + 1) + q * n"
    by simp
  have r: "0 \<le> r" "r < n"
    using assms by (simp_all add: r_def)
  show ?thesis
  proof (cases "r + 1 = n")
    case True
    with y have "y = (q + 1) * n"
      by (simp add: algebra_simps)
    with assms have "y div n = q + 1 \<and> y mod n = 0"
      by simp
    then show ?thesis
      by (simp add: q_def)
  next
    case False
    with r have small: "0 \<le> r + 1" "r + 1 < n" "r + 1 \<noteq> 0"
      by simp_all
    from assms small have "((r + 1) + q * n) div n = q" "((r + 1) + q * n) mod n = r + 1"
      by simp_all
    with y have "y div n = q \<and> y mod n = r + 1"
      by simp
    with small show ?thesis
      by (simp add: q_def)
  qed
qed

lemma dvd_mod_zero:
  fixes y :: int
  assumes "a dvd b" "y mod b = 0"
  shows "y mod a = 0"
proof -
  from assms(2) have "b dvd y" by (simp add: dvd_eq_mod_eq_0)
  with assms(1) have "a dvd y" by (rule dvd_trans)
  then show ?thesis by (simp add: dvd_eq_mod_eq_0)
qed

lemma div_step_zero:
  fixes y n :: int
  shows "0 < n \<Longrightarrow> y mod n = 0 \<Longrightarrow> y div n = (y - 1) div n + 1"
  using div_step [of n y] by simp

lemma div_step_nonzero:
  fixes y n :: int
  shows "0 < n \<Longrightarrow> y mod n \<noteq> 0 \<Longrightarrow> y div n = (y - 1) div n"
  using div_step [of n y] by simp

lemma days_before_year_step:
  "days_before_year (year + 1) = days_before_year year + (if is_leap year then 366 else 365)"
proof -
  have m4: "year mod 4 = 0" if "year mod 100 = 0"
    using _ that by (rule dvd_mod_zero) simp
  have m100: "year mod 100 = 0" if "year mod 400 = 0"
    using _ that by (rule dvd_mod_zero) simp
  have step: "days_before_year (year + 1) = days_before_year year + 365
      + (year div 4 - (year - 1) div 4) - (year div 100 - (year - 1) div 100)
      + (year div 400 - (year - 1) div 400)"
    by (simp add: days_before_year_def Let_def)
  have pos: "(0::int) < 4" "(0::int) < 100" "(0::int) < 400"
    by simp_all
  show ?thesis
  proof (cases "year mod 4 = 0")
    case False
    with m4 m100 have no: "year mod 100 \<noteq> 0" "year mod 400 \<noteq> 0" by argo+
    note div_step_nonzero [OF pos(1) False] div_step_nonzero [OF pos(2) no(1)]
      div_step_nonzero [OF pos(3) no(2)]
    with step have "days_before_year (year + 1) = days_before_year year + 365"
      by linarith
    moreover have "\<not> is_leap year"
      using False by (simp only: is_leap_def simp_thms)
    ultimately show ?thesis by (simp only: if_False)
  next
    case mod4: True
    show ?thesis
    proof (cases "year mod 100 = 0")
      case False
      with m100 have no: "year mod 400 \<noteq> 0" by argo
      note div_step_zero [OF pos(1) mod4] div_step_nonzero [OF pos(2) False]
        div_step_nonzero [OF pos(3) no]
      with step have "days_before_year (year + 1) = days_before_year year + 366"
        by linarith
      moreover have "is_leap year"
        using mod4 False by (simp only: is_leap_def simp_thms)
      ultimately show ?thesis by (simp only: if_True)
    next
      case mod100: True
      show ?thesis
      proof (cases "year mod 400 = 0")
        case False
        note div_step_zero [OF pos(1) mod4] div_step_zero [OF pos(2) mod100]
          div_step_nonzero [OF pos(3) False]
        with step have "days_before_year (year + 1) = days_before_year year + 365"
          by linarith
        moreover have "\<not> is_leap year"
          using mod4 mod100 False by (simp only: is_leap_def simp_thms)
        ultimately show ?thesis by (simp only: if_False)
      next
        case True
        note div_step_zero [OF pos(1) mod4] div_step_zero [OF pos(2) mod100]
          div_step_zero [OF pos(3) True]
        with step have "days_before_year (year + 1) = days_before_year year + 366"
          by linarith
        moreover have "is_leap year"
          using mod4 mod100 True by (simp only: is_leap_def simp_thms)
        ultimately show ?thesis by (simp only: if_True)
      qed
    qed
  qed
qed

lemma days_before_year_mono: "a \<le> b \<Longrightarrow> days_before_year a \<le> days_before_year b"
proof (induction b rule: int_ge_induct)
  case base
  then show ?case by simp
next
  case (step i)
  have "days_before_year i \<le> days_before_year (i + 1)"
    by (simp add: days_before_year_step)
  with step.IH show ?case by simp
qed

lemma month_cases:
  fixes month :: int
  assumes "1 \<le> month" "month \<le> 12"
  obtains "month = 1" | "month = 2" | "month = 3" | "month = 4" | "month = 5" | "month = 6"
    | "month = 7" | "month = 8" | "month = 9" | "month = 10" | "month = 11" | "month = 12"
proof -
  from assms have "month = 1 \<or> month = 2 \<or> month = 3 \<or> month = 4 \<or> month = 5 \<or> month = 6
      \<or> month = 7 \<or> month = 8 \<or> month = 9 \<or> month = 10 \<or> month = 11 \<or> month = 12"
    by presburger
  with that show thesis by argo
qed

lemma days_before_month_step:
  assumes "1 \<le> month" "month \<le> 11"
  shows "days_before_month year (month + 1)
    = days_before_month year month + days_in_month year month"
proof -
  from assms have "1 \<le> month" "month \<le> 12" by simp_all
  then show ?thesis
  proof (cases month rule: month_cases)
    case 12
    with assms show ?thesis by simp
  qed (simp_all add: days_before_month_def DAYS_BEFORE_MONTH_def days_in_month_def)
qed

lemma days_before_month_december:
  "days_before_month year 12 + days_in_month year 12 = (if is_leap year then 366 else 365)"
  by (simp add: days_before_month_def DAYS_BEFORE_MONTH_def days_in_month_def)

lemma days_in_month_pos: "28 \<le> days_in_month year month"
  by (simp add: days_in_month_def)

lemma days_before_month_mono:
  assumes "1 \<le> a" "a \<le> b" "b \<le> 12"
  shows "days_before_month year a \<le> days_before_month year b"
  using assms(2,1,3)
proof (induction b rule: int_ge_induct)
  case base
  then show ?case by simp
next
  case (step i)
  then have "days_before_month year (i + 1) = days_before_month year i + days_in_month year i"
    by (intro days_before_month_step) simp_all
  with step days_in_month_pos [of year i] show ?case by simp
qed

lemma days_before_month_nonneg:
  assumes "1 \<le> month" "month \<le> 12"
  shows "0 \<le> days_before_month year month"
proof -
  have "days_before_month year 1 = 0"
    by (simp add: days_before_month_def DAYS_BEFORE_MONTH_def)
  with days_before_month_mono [of 1 month year] assms show ?thesis by simp
qed

text \<open>The last day of a month comes before the first day of any later month.\<close>

lemma month_end_before:
  assumes "1 \<le> a" "a < b" "b \<le> 12"
  shows "days_before_month year a + days_in_month year a \<le> days_before_month year b"
proof -
  from assms have "days_before_month year (a + 1)
      = days_before_month year a + days_in_month year a"
    by (intro days_before_month_step) simp_all
  moreover from assms have "days_before_month year (a + 1) \<le> days_before_month year b"
    by (intro days_before_month_mono) simp_all
  ultimately show ?thesis by simp
qed

lemma month_end_in_year:
  assumes "1 \<le> month" "month \<le> 12"
  shows "days_before_month year month + days_in_month year month
    \<le> (if is_leap year then 366 else 365)"
proof (cases "month = 12")
  case True
  then show ?thesis using days_before_month_december [of year] by simp
next
  case False
  with assms have "days_before_month year month + days_in_month year month
      \<le> days_before_month year 12"
    by (intro month_end_before) simp_all
  with days_before_month_december [of year] days_in_month_pos [of year 12]
  show ?thesis by (simp split: if_splits)
qed

lemma date_less_iff:
  fixes y1 m1 d1 y2 m2 d2 :: int
  shows "(y1, m1, d1) < (y2, m2, d2) \<longleftrightarrow>
    y1 < y2 \<or> y1 = y2 \<and> (m1 < m2 \<or> m1 = m2 \<and> d1 < d2)"
  by (auto simp: less_prod_def)

lemma toordinal_strict_mono:
  assumes "valid_date a" "valid_date b" "a < b"
  shows "toordinal a < toordinal b"
proof -
  obtain y1 m1 d1 where a: "a = (y1, m1, d1)" by (cases a)
  obtain y2 m2 d2 where b: "b = (y2, m2, d2)" by (cases b)
  from assms(1) a have va: "1 \<le> m1" "m1 \<le> 12" "1 \<le> d1" "d1 \<le> days_in_month y1 m1"
    by simp_all
  from assms(2) b have vb: "1 \<le> m2" "m2 \<le> 12" "1 \<le> d2" "d2 \<le> days_in_month y2 m2"
    by simp_all
  from assms(3) have "y1 < y2 \<or> y1 = y2 \<and> (m1 < m2 \<or> m1 = m2 \<and> d1 < d2)"
    unfolding a b by (simp only: date_less_iff)
  then consider "y1 < y2" | "y1 = y2" "m1 < m2" | "y1 = y2" "m1 = m2" "d1 < d2"
    by argo
  then show ?thesis
  proof cases
    case 1
    have "toordinal a \<le> days_before_year y1 + (if is_leap y1 then 366 else 365)"
      using month_end_in_year [OF va(1,2), of y1] va(4) by (simp add: a)
    also have "\<dots> = days_before_year (y1 + 1)"
      by (simp add: days_before_year_step)
    also from 1 have "\<dots> \<le> days_before_year y2"
      by (intro days_before_year_mono) simp
    also have "\<dots> < toordinal b"
      using days_before_month_nonneg [OF vb(1,2), of y2] vb(3) by (simp add: b)
    finally show ?thesis .
  next
    case 2
    have "toordinal a \<le> days_before_year y1 + (days_before_month y1 m1 + days_in_month y1 m1)"
      using va(4) by (simp add: a)
    also have "\<dots> \<le> days_before_year y1 + days_before_month y1 m2"
      using month_end_before [OF va(1) 2(2) vb(2), of y1] by simp
    also have "\<dots> < toordinal b"
      using vb(3) 2(1) by (simp add: b)
    finally show ?thesis .
  next
    case 3
    then show ?thesis by (simp add: a b)
  qed
qed

lemma toordinal_mono:
  assumes "valid_date a" "valid_date b" "a \<le> b"
  shows "toordinal a \<le> toordinal b"
proof (cases "a = b")
  case True
  then show ?thesis by simp
next
  case False
  with assms(3) have "a < b" by simp
  with assms(1,2) have "toordinal a < toordinal b" by (rule toordinal_strict_mono)
  then show ?thesis by simp
qed

lemma toordinal_inj:
  assumes "valid_date a" "valid_date b" "toordinal a = toordinal b"
  shows "a = b"
proof (rule ccontr)
  assume "a \<noteq> b"
  then consider "a < b" | "b < a" by (auto simp: neq_iff)
  then show False
  proof cases
    case 1
    with assms(1,2) have "toordinal a < toordinal b" by (rule toordinal_strict_mono)
    with assms(3) show False by simp
  next
    case 2
    with assms(2,1) have "toordinal b < toordinal a" by (rule toordinal_strict_mono)
    with assms(3) show False by simp
  qed
qed

subsection \<open>Trend buckets\<close>

lemma date_le_iff:
  fixes y1 m1 d1 y2 m2 d2 :: int
  shows "(y1, m1, d1) \<le> (y2, m2, d2) \<longleftrightarrow>
    y1 < y2 \<or> y1 = y2 \<and> (m1 < m2 \<or> m1 = m2 \<and> d1 \<le> d2)"
  by (auto simp: less_eq_prod_def)

lemma bin_of_mono:
  assumes "valid_date a" "valid_date b" "a \<le> b"
  shows "bin_of code a \<le> bin_of code b"
proof -
  obtain y1 m1 d1 where a: "a = (y1, m1, d1)" by (cases a)
  obtain y2 m2 d2 where b: "b = (y2, m2, d2)" by (cases b)
  from assms(1) a have va: "1 \<le> m1" "m1 \<le> 12" by simp_all
  from assms(2) b have vb: "1 \<le> m2" "m2 \<le> 12" by simp_all
  from assms(3) have le: "y1 < y2 \<or> y1 = y2 \<and> (m1 < m2 \<or> m1 = m2 \<and> d1 \<le> d2)"
    unfolding a b by (simp only: date_le_iff)
  have ord: "toordinal a \<le> toordinal b"
    using assms by (rule toordinal_mono)
  show ?thesis
  proof (cases code)
    case Code_D
    with ord show ?thesis by simp
  next
    case Code_W_MON
    from ord have "(toordinal a + 5) div 7 \<le> (toordinal b + 5) div 7"
      by (intro zdiv_mono1) simp_all
    with Code_W_MON show ?thesis by simp
  next
    case Code_M
    from le va vb have "12 * y1 + (m1 - 1) \<le> 12 * y2 + (m2 - 1)" by linarith
    with Code_M show ?thesis by (simp add: a b)
  next
    case Code_Q
    from va vb have q: "0 \<le> (m1 - 1) div 3" "(m1 - 1) div 3 \<le> 3" "0 \<le> (m2 - 1) div 3"
      "(m2 - 1) div 3 \<le> 3"
      by linarith+
    have "(m1 - 1) div 3 \<le> (m2 - 1) div 3" if "m1 \<le> m2"
      using that by (intro zdiv_mono1) simp_all
    with le q have "4 * y1 + (m1 - 1) div 3 \<le> 4 * y2 + (m2 - 1) div 3"
      by (cases "y1 < y2") auto
    with Code_Q show ?thesis by (simp add: a b)
  next
    case Code_Y
    from le have "y1 \<le> y2" by linarith
    with Code_Y show ?thesis by (simp add: a b)
  qed
qed

lemma radix_unique:
  fixes n :: int
  assumes "0 \<le> r1" "r1 < n" "0 \<le> r2" "r2 < n" "n * q1 + r1 = n * q2 + r2"
  shows "q1 = q2 \<and> r1 = r2"
proof -
  from assms(1,2) have "(n * q1 + r1) div n = q1" by simp
  moreover from assms(3,4) have "(n * q2 + r2) div n = q2" by simp
  ultimately have "q1 = q2" using assms(5) by simp
  with assms(5) show ?thesis by simp
qed

lemma next_monday:
  fixes n :: int
  shows "n + (7 - (n + 6) mod 7) mod 7 = 7 * ((n + 5) div 7) + 1"
proof -
  define q where "q = (n + 5) div 7"
  define r where "r = (n + 5) mod 7"
  have r: "0 \<le> r" "r < 7"
    by (simp_all add: r_def)
  have "n + 5 = 7 * q + r"
    by (simp add: q_def r_def)
  then have n: "n = 7 * q + (r - 5)"
    by simp
  have "(n + 6) mod 7 = (r + 1) mod 7"
  proof -
    have "n + 6 = (r + 1) + q * 7" using n by simp
    then show ?thesis by (simp only: mod_mult_self1)
  qed
  show ?thesis
  proof (cases "r = 6")
    case True
    with \<open>(n + 6) mod 7 = (r + 1) mod 7\<close> have "(n + 6) mod 7 = 0" by simp
    with n True show ?thesis by (simp add: q_def [symmetric])
  next
    case False
    with r have "(r + 1) mod 7 = r + 1" by simp
    with \<open>(n + 6) mod 7 = (r + 1) mod 7\<close> have "(n + 6) mod 7 = r + 1" by simp
    moreover from r have "(6 - r) mod 7 = 6 - r" by simp
    ultimately have "n + (7 - (n + 6) mod 7) mod 7 = n + (6 - r)" by simp
    with n show ?thesis by (simp add: q_def [symmetric])
  qed
qed

lemma week_end_bin: "week_end d = 7 * bin_of Code_W_MON d + 1"
  using next_monday [of "toordinal d"] by (simp add: week_end_def weekday_def)

lemma bin_of_same_period:
  assumes "valid_date a" "valid_date b"
  shows "bin_of code a = bin_of code b \<longleftrightarrow> same_period code a b"
proof -
  obtain y1 m1 d1 where a: "a = (y1, m1, d1)" by (cases a)
  obtain y2 m2 d2 where b: "b = (y2, m2, d2)" by (cases b)
  from assms(1) a have va: "1 \<le> m1" "m1 \<le> 12" by simp_all
  from assms(2) b have vb: "1 \<le> m2" "m2 \<le> 12" by simp_all
  show ?thesis
  proof (cases code)
    case Code_D
    with toordinal_inj [OF assms] show ?thesis by auto
  next
    case Code_W_MON
    then show ?thesis by (simp add: week_end_bin)
  next
    case Code_M
    from va vb have "12 * y1 + (m1 - 1) = 12 * y2 + (m2 - 1) \<longleftrightarrow> y1 = y2 \<and> m1 = m2"
      using radix_unique [of "m1 - 1" 12 "m2 - 1" y1 y2] by auto
    with Code_M show ?thesis by (simp add: a b)
  next
    case Code_Q
    from va vb have q: "0 \<le> (m1 - 1) div 3" "(m1 - 1) div 3 \<le> 3" "0 \<le> (m2 - 1) div 3"
      "(m2 - 1) div 3 \<le> 3"
      by linarith+
    then have "4 * y1 + (m1 - 1) div 3 = 4 * y2 + (m2 - 1) div 3
        \<longleftrightarrow> y1 = y2 \<and> (m1 - 1) div 3 = (m2 - 1) div 3"
      using radix_unique [of "(m1 - 1) div 3" 4 "(m2 - 1) div 3" y1 y2] by auto
    with Code_Q show ?thesis by (simp add: a b)
  next
    case Code_Y
    then show ?thesis by (simp add: a b)
  qed
qed

lemma date_span:
  assumes "r \<in> set view"
  shows "min_date view \<le> Fecha r" "Fecha r \<le> max_date view"
  using assms by (simp_all add: min_date_def max_date_def)

lemma date_span_valid:
  assumes "view \<noteq> []" "\<forall>r \<in> set view. valid_date (Fecha r)"
  shows "valid_date (min_date view)" "valid_date (max_date view)"
proof -
  from assms(1) have "Min (set (map Fecha view)) \<in> set (map Fecha view)"
    "Max (set (map Fecha view)) \<in> set (map Fecha view)"
    by (simp_all del: set_map)
  with assms(2) show "valid_date (min_date view)" "valid_date (max_date view)"
    by (auto simp: min_date_def max_date_def)
qed

lemma trend_keys:
  "view \<noteq> [] \<Longrightarrow>
     map trend_Fecha (df_trend periodo view)
       = [bin_of (period_code periodo) (min_date view) .. bin_of (period_code periodo) (max_date view)]"
  by (simp add: df_trend_def resample_def comp_def)

lemma trend_row_content:
  assumes "b \<in> set (df_trend periodo view)"
  shows "b = agg (trend_Fecha b,
    filter (\<lambda>r. bin_of (period_code periodo) (Fecha r) = trend_Fecha b) view)"
  using assms by (auto simp: df_trend_def resample_def split: if_splits)

lemma trend_keys_between:
  assumes "view \<noteq> []" "\<forall>r \<in> set view. valid_date (Fecha r)"
    and "valid_date d" "min_date view \<le> d" "d \<le> max_date view"
  shows "bin_of (period_code periodo) d \<in> set (map trend_Fecha (df_trend periodo view))"
proof -
  note valid = date_span_valid [OF assms(1,2)]
  have "bin_of (period_code periodo) (min_date view) \<le> bin_of (period_code periodo) d"
    using valid(1) assms(3,4) by (rule bin_of_mono)
  moreover have "bin_of (period_code periodo) d \<le> bin_of (period_code periodo) (max_date view)"
    using assms(3) valid(2) assms(5) by (rule bin_of_mono)
  ultimately show ?thesis
    by (simp add: trend_keys [OF assms(1)])
qed

text \<open>Every row is counted in exactly one bucket, so the buckets add up to the totals.\<close>

lemma sum_over_groups:
  fixes g :: "'a \<Rightarrow> 'b::comm_monoid_add"
  assumes "distinct ks" "\<forall>x \<in> set xs. f x \<in> set ks"
  shows "sum_list (map (\<lambda>k. sum_list (map g (filter (\<lambda>x. f x = k) xs))) ks)
    = sum_list (map g xs)"
  using assms(2)
proof (induction xs)
  case Nil
  then show ?case by simp
next
  case (Cons x xs)
  have "sum_list (map (\<lambda>k. sum_list (map g (filter (\<lambda>x. f x = k) (x # xs)))) ks)
      = sum_list (map (\<lambda>k. (if f x = k then g x else 0)
          + sum_list (map g (filter (\<lambda>x. f x = k) xs))) ks)"
    by (intro arg_cong [where f = sum_list] map_cong) auto
  also have "\<dots> = sum_list (map (\<lambda>k. if f x = k then g x else 0) ks)
      + sum_list (map (\<lambda>k. sum_list (map g (filter (\<lambda>x. f x = k) xs))) ks)"
    by (simp add: sum_list_addf)
  also have "sum_list (map (\<lambda>k. if f x = k then g x else 0) ks) = g x"
  proof -
    have "sum_list (map (\<lambda>k. if f x = k then g x else 0) ks)
        = (\<Sum>k \<in> set ks. if f x = k then g x else 0)"
      using assms(1) by (simp add: sum_list_distinct_conv_sum_set)
    also have "\<dots> = g x"
      using Cons.prems by (simp add: sum.delta')
    finally show ?thesis .
  qed
  finally show ?case using Cons by simp
qed

lemma trend_totals:
  assumes "view \<noteq> []" "\<forall>r \<in> set view. valid_date (Fecha r)"
  shows "sum_list (map trend_Ventas (df_trend periodo view)) = ventas_totales view"
    "sum_list (map trend_Unidades (df_trend periodo view)) = unidades_totales view"
proof -
  let ?ks = "[bin_of (period_code periodo) (min_date view) ..
      bin_of (period_code periodo) (max_date view)]"
  have inside: "\<forall>r \<in> set view. bin_of (period_code periodo) (Fecha r) \<in> set ?ks"
  proof
    fix r assume r: "r \<in> set view"
    with assms(2) have "valid_date (Fecha r)" by blast
    with r have "bin_of (period_code periodo) (Fecha r)
        \<in> set (map trend_Fecha (df_trend periodo view))"
      by (intro trend_keys_between [OF assms]) (simp_all add: date_span)
    then show "bin_of (period_code periodo) (Fecha r) \<in> set ?ks"
      by (simp only: trend_keys [OF assms(1)])
  qed
  have "map trend_Ventas (df_trend periodo view)
      = map (\<lambda>k. sum_list (map Ventas
          (filter (\<lambda>r. bin_of (period_code periodo) (Fecha r) = k) view))) ?ks"
    using assms(1) by (simp add: df_trend_def resample_def comp_def)
  with sum_over_groups [OF _ inside, of Ventas]
  show "sum_list (map trend_Ventas (df_trend periodo view)) = ventas_totales view"
    by (simp add: ventas_totales_def)
  have "map trend_Unidades (df_trend periodo view)
      = map (\<lambda>k. sum_list (map Unidades
          (filter (\<lambda>r. bin_of (period_code periodo) (Fecha r) = k) view))) ?ks"
    using assms(1) by (simp add: df_trend_def resample_def comp_def)
  with sum_over_groups [OF _ inside, of Unidades]
  show "sum_list (map trend_Unidades (df_trend periodo view)) = unidades_totales view"
    by (simp add: unidades_totales_def)
qed

text \<open>
  2024-01-01 is a Monday, and 2024-01-07 is the Sunday of the week that starts on it, but
  the weekly trend puts the two sales into two buckets: the bin of the Monday ends on
  that Monday.
\<close>

theorem week_starting_monday_counterexample:
  "weekday (2024, 1, 1) = 0
   \<and> week_start (2024, 1, 7) = week_start (2024, 1, 1)
   \<and> map Fecha same_week_records = [(2024, 1, 1), (2024, 1, 7)]
   \<and> map trend_Ventas (df_trend Semanal same_week_records) = [100, 200]"
  by code_simp

text \<open>
  Claim C9, as the script has it. For every non-empty view with well-formed dates and
  every period selector, the buckets of the trend come in strictly ascending order of
  their bin (so no bin appears twice), every row has the bucket of its bin, a bucket holds
  the sum of the sales, the mean of the inventory and the sum of the units of the rows of
  its bin, and two rows share a bin exactly when their dates lie in the same calendar
  period: the same day, the same week from Tuesday to Monday, the same month, quarter or
  year. The sales and the units of the buckets add up to the totals of the view.
\<close>

theorem df_trend_buckets:
  assumes "view \<noteq> []" "\<forall>r \<in> set view. valid_date (Fecha r)"
  shows "sorted_wrt (<) (map trend_Fecha (df_trend periodo view))
    \<and> (\<forall>r \<in> set view. \<exists>b \<in> set (df_trend periodo view).
          trend_Fecha b = bin_of (period_code periodo) (Fecha r))
    \<and> (\<forall>b \<in> set (df_trend periodo view).
          trend_Ventas b = sum_list (map Ventas
            (filter (\<lambda>r. bin_of (period_code periodo) (Fecha r) = trend_Fecha b) view))
          \<and> trend_Inventario b = mean (map Inventario
            (filter (\<lambda>r. bin_of (period_code periodo) (Fecha r) = trend_Fecha b) view))
          \<and> trend_Unidades b = sum_list (map Unidades
            (filter (\<lambda>r. bin_of (period_code periodo) (Fecha r) = trend_Fecha b) view)))
    \<and> (\<forall>r \<in> set view. \<forall>s \<in> set view.
          bin_of (period_code periodo) (Fecha r) = bin_of (period_code periodo) (Fecha s)
            \<longleftrightarrow> same_period (period_code periodo) (Fecha r) (Fecha s))
    \<and> (\<forall>d. week_end d - 6 \<le> toordinal d \<and> toordinal d \<le> week_end d
          \<and> (week_end d + 6) mod 7 = 0)
    \<and> sum_list (map trend_Ventas (df_trend periodo view)) = ventas_totales view
    \<and> sum_list (map trend_Unidades (df_trend periodo view)) = unidades_totales view"
proof -
  have ascending: "sorted_wrt (<) (map trend_Fecha (df_trend periodo view))"
    by (simp add: trend_keys [OF assms(1)] sorted_wrt_upto)
  have present: "\<exists>b \<in> set (df_trend periodo view).
      trend_Fecha b = bin_of (period_code periodo) (Fecha r)" if "r \<in> set view" for r
  proof -
    from that assms(2) have "valid_date (Fecha r)" by blast
    with that have "bin_of (period_code periodo) (Fecha r)
        \<in> set (map trend_Fecha (df_trend periodo view))"
      by (intro trend_keys_between [OF assms]) (simp_all add: date_span)
    then show ?thesis by auto
  qed
  have content: "trend_Ventas b = sum_list (map Ventas
            (filter (\<lambda>r. bin_of (period_code periodo) (Fecha r) = trend_Fecha b) view))
          \<and> trend_Inventario b = mean (map Inventario
            (filter (\<lambda>r. bin_of (period_code periodo) (Fecha r) = trend_Fecha b) view))
          \<and> trend_Unidades b = sum_list (map Unidades
            (filter (\<lambda>r. bin_of (period_code periodo) (Fecha r) = trend_Fecha b) view))"
    if "b \<in> set (df_trend periodo view)" for b
    using trend_row_content [OF that]
    by (metis agg.simps trend_row.select_convs(2,3,4))
  have periods: "bin_of (period_code periodo) (Fecha r) = bin_of (period_code periodo) (Fecha s)
      \<longleftrightarrow> same_period (period_code periodo) (Fecha r) (Fecha s)"
    if "r \<in> set view" "s \<in> set view" for r s
    using that assms(2) by (intro bin_of_same_period) blast+
  have week: "week_end d - 6 \<le> toordinal d \<and> toordinal d \<le> week_end d
      \<and> (week_end d + 6) mod 7 = 0" for d
  proof -
    have "0 \<le> (7 - weekday d) mod 7" "(7 - weekday d) mod 7 < 7"
      by simp_all
    then have "week_end d - 6 \<le> toordinal d \<and> toordinal d \<le> week_end d"
      by (simp add: week_end_def)
    moreover have "(week_end d + 6) mod 7 = 0"
      by (simp add: week_end_bin)
    ultimately show ?thesis by simp
  qed
  from ascending present content periods week trend_totals [OF assms, of periodo]
  show ?thesis by blast
qed

theorem df_trend_buckets_witness:
  "same_week_records \<noteq> []
   \<and> list_all (\<lambda>r. valid_date (Fecha r)) same_week_records
   \<and> map trend_Fecha (df_trend Semanal same_week_records) = [105555, 105556]
   \<and> week_end (2024, 1, 1) = toordinal (2024, 1, 1)
   \<and> week_end (2024, 1, 7) = toordinal (2024, 1, 8)
   \<and> \<not> same_period (period_code Semanal) (2024, 1, 1) (2024, 1, 7)
   \<and> df_trend Mensual same_week_records
       = [\<lparr>trend_Fecha = 24288, trend_Ventas = 300, trend_Inventario = Some 50,
           trend_Unidades = 30\<rparr>]
   \<and> sorted_wrt (<) (map trend_Fecha (df_trend Semanal same_week_records))"
proof -
  have nonempty: "same_week_records \<noteq> []"
    by code_simp
  have valid: "list_all (\<lambda>r. valid_date (Fecha r)) same_week_records"
    by code_simp
  then have valid': "\<forall>r \<in> set same_week_records. valid_date (Fecha r)"
    by (simp add: list_all_iff)
  have weekly: "map trend_Fecha (df_trend Semanal same_week_records) = [105555, 105556]"
    by code_simp
  have ends: "week_end (2024, 1, 1) = toordinal (2024, 1, 1)"
    "week_end (2024, 1, 7) = toordinal (2024, 1, 8)"
    "\<not> same_period (period_code Semanal) (2024, 1, 1) (2024, 1, 7)"
    by code_simp+
  have monthly: "df_trend Mensual same_week_records
       = [\<lparr>trend_Fecha = 24288, trend_Ventas = 300, trend_Inventario = Some 50,
           trend_Unidades = 30\<rparr>]"
    by code_simp
  from df_trend_buckets [OF nonempty valid', of Semanal]
  have "sorted_wrt (<) (map trend_Fecha (df_trend Semanal same_week_records))"
    by blast
  with nonempty valid weekly ends monthly show ?thesis
    by blast
qed

text \<open>
  Claim C10 (gaps are filled). For every non-empty view with well-formed dates and every
  period selector, the trend has one bucket for each bin from the bin of the earliest
  date to the bin of the latest date, so the bin of every date between them is there; a
  bucket whose bin holds no row has sales 0, units 0 and no inventory mean.
\<close>

theorem df_trend_fills_gaps:
  assumes "view \<noteq> []" "\<forall>r \<in> set view. valid_date (Fecha r)"
  shows "map trend_Fecha (df_trend periodo view)
      = [bin_of (period_code periodo) (min_date view) ..
         bin_of (period_code periodo) (max_date view)]
    \<and> (\<forall>d. valid_date d \<and> min_date view \<le> d \<and> d \<le> max_date view \<longrightarrow>
          bin_of (period_code periodo) d \<in> set (map trend_Fecha (df_trend periodo view)))
    \<and> (\<forall>b \<in> set (df_trend periodo view).
          (\<forall>r \<in> set view. bin_of (period_code periodo) (Fecha r) \<noteq> trend_Fecha b) \<longrightarrow>
          trend_Ventas b = 0 \<and> trend_Unidades b = 0 \<and> trend_Inventario b = None)"
proof -
  have empty: "trend_Ventas b = 0 \<and> trend_Unidades b = 0 \<and> trend_Inventario b = None"
    if b: "b \<in> set (df_trend periodo view)"
      and none: "\<forall>r \<in> set view. bin_of (period_code periodo) (Fecha r) \<noteq> trend_Fecha b" for b
  proof -
    from none have "filter (\<lambda>r. bin_of (period_code periodo) (Fecha r) = trend_Fecha b) view = []"
      by (simp add: filter_empty_conv)
    with trend_row_content [OF b] have "b = agg (trend_Fecha b, [])"
      by simp
    then have "trend_Ventas b = trend_Ventas (agg (trend_Fecha b, []))"
      "trend_Unidades b = trend_Unidades (agg (trend_Fecha b, []))"
      "trend_Inventario b = trend_Inventario (agg (trend_Fecha b, []))"
      by simp_all
    then show ?thesis by (simp add: mean_def)
  qed
  from trend_keys [OF assms(1), of periodo] trend_keys_between [OF assms, of _ periodo] empty
  show ?thesis by blast
qed

theorem df_trend_fills_gaps_witness:
  "gap_records \<noteq> []
   \<and> list_all (\<lambda>r. valid_date (Fecha r)) gap_records
   \<and> map Fecha gap_records = [(2024, 1, 1), (2024, 1, 3)]
   \<and> valid_date (2024, 1, 2)
   \<and> bin_of (period_code Diario) (2024, 1, 2)
       \<in> set (map trend_Fecha (df_trend Diario gap_records))
   \<and> df_trend Diario gap_records
       = [\<lparr>trend_Fecha = 738886, trend_Ventas = 100, trend_Inventario = Some 50,
           trend_Unidades = 10\<rparr>,
          \<lparr>trend_Fecha = 738887, trend_Ventas = 0, trend_Inventario = None,
           trend_Unidades = 0\<rparr>,
          \<lparr>trend_Fecha = 738888, trend_Ventas = 300, trend_Inventario = Some 50,
           trend_Unidades = 0\<rparr>]"
proof -
  have nonempty: "gap_records \<noteq> []"
    by code_simp
  have valid: "list_all (\<lambda>r. valid_date (Fecha r)) gap_records"
    by code_simp
  then have valid': "\<forall>r \<in> set gap_records. valid_date (Fecha r)"
    by (simp add: list_all_iff)
  have dates: "map Fecha gap_records = [(2024, 1, 1), (2024, 1, 3)]"
    by code_simp
  have between: "valid_date (2024, 1, 2) \<and> min_date gap_records \<le> (2024, 1, 2)
      \<and> (2024, 1, 2) \<le> max_date gap_records"
    by code_simp
  have daily: "df_trend Diario gap_records
       = [\<lparr>trend_Fecha = 738886, trend_Ventas = 100, trend_Inventario = Some 50,
           trend_Unidades = 10\<rparr>,
          \<lparr>trend_Fecha = 738887, trend_Ventas = 0, trend_Inventario = None,
           trend_Unidades = 0\<rparr>,
          \<lparr>trend_Fecha = 738888, trend_Ventas = 300, trend_Inventario = Some 50,
           trend_Unidades = 0\<rparr>]"
    by code_simp
  from df_trend_fills_gaps [OF nonempty valid', of Diario] between
  have "bin_of (period_code Diario) (2024, 1, 2)
       \<in> set (map trend_Fecha (df_trend Diario gap_records))"
    by blast
  with nonempty valid dates between daily show ?thesis
    by blast
qed

end
